theory Spec2Isabelle
  imports Main "HOL-Library.Word"
begin

section \<open>Certificate renewal timers of acme/autocert (renewal.go)\<close>

text \<open>
  A shallow embedding of \<^verbatim>\<open>src/acme/autocert/renewal.go\<close>: the type
  \<^verbatim>\<open>domainRenewal\<close> with its methods \<^verbatim>\<open>start\<close>, \<^verbatim>\<open>stop\<close>,
  \<^verbatim>\<open>renew\<close>, \<^verbatim>\<open>updateState\<close>, \<^verbatim>\<open>do\<close> and \<^verbatim>\<open>next\<close>.
  Mutation of the record and of the Manager is explicit state passing; every call on a
  collaborator and every lock operation is appended to a trace, in program order. The
  \<^verbatim>\<open>fmt.Println\<close> lines only write to the console and are left out. The context
  of line 67 only bounds the calls made by \<^verbatim>\<open>do\<close>: its expiry shows as an error of
  a collaborator. The map \<^verbatim>\<open>Manager.state\<close> is taken to be allocated, and the leaf
  of a certificate that \<^verbatim>\<open>cacheGet\<close> or \<^verbatim>\<open>authorizedCert\<close> delivers without an
  error to be parsed, as the code reads both without a check.
\<close>

subsection \<open>Data\<close>

text \<open>
  A \<^verbatim>\<open>time.Time\<close> is an instant, counted in nanoseconds from a fixed epoch; a
  \<^verbatim>\<open>time.Duration\<close> is an \<^verbatim>\<open>int64\<close> count of nanoseconds, so its arithmetic
  wraps around and its comparisons are signed (read through \<open>sint\<close>).
\<close>

type_synonym time = int
type_synonym Duration = "64 word"
type_synonym bytes = "8 word list"
type_synonym certKey = string

datatype error = ErrCacheMiss | Err string

text \<open>A \<^verbatim>\<open>crypto.Signer\<close>, and a \<^verbatim>\<open>crypto.PrivateKey\<close> (an empty interface):
  the type assertion \<^verbatim>\<open>tlscert.PrivateKey.(crypto.Signer)\<close> succeeds on \<open>IsSigner\<close>
  only.\<close>

datatype signer = Signer nat
datatype privateKey = IsSigner signer | NotSigner nat

text \<open>Of an \<^verbatim>\<open>x509.Certificate\<close> the code reads \<^verbatim>\<open>NotAfter\<close> only.\<close>

record x509Certificate =
  NotAfter :: time
  Raw :: bytes

record tlsCertificate =
  Certificate :: "bytes list"
  PrivateKey :: privateKey
  Leaf :: x509Certificate

record certState =
  key :: signer
  cert :: "bytes list"
  leaf :: x509Certificate

datatype lock = TimerMu | StateMu

datatype event =
    Lock lock
  | Unlock lock
  | CacheGet certKey
  | AuthorizedCert signer certKey
  | CachePut certKey tlsCertificate
  | TimerArm nat Duration
  | TimerStop nat
  | TestDidRenewLoop Duration "error option"

text \<open>
  The collaborators of the Manager, whose code is not in this file. Their answers are
  parameters of the model.
  \<^item> \<open>renewBefore\<close>: the value of \<^verbatim>\<open>Manager.renewBefore()\<close>;
  \<^item> \<open>nows\<close>: the successive readings of \<^verbatim>\<open>Manager.now()\<close>;
  \<^item> \<open>rands\<close>: the successive raw outputs of the random source \<^verbatim>\<open>pseudoRand\<close>;
  \<^item> \<open>getErr\<close>: a failure of \<^verbatim>\<open>Manager.cacheGet\<close> other than a missing entry;
  \<^item> \<open>authorizedCert\<close>: the answer of \<^verbatim>\<open>Manager.authorizedCert\<close>;
  \<^item> \<open>tlscert\<close>: the answer of \<^verbatim>\<open>certState.tlscert\<close>;
  \<^item> \<open>putErr\<close>: a failure of \<^verbatim>\<open>Manager.cachePut\<close>, with the contents the
    cache is left with.
\<close>

record env =
  renewBefore :: Duration
  nows :: "nat \<Rightarrow> time"
  rands :: "nat \<Rightarrow> nat"
  getErr :: "error option"
  authorizedCert :: "signer \<Rightarrow> certKey \<Rightarrow> error + (bytes list \<times> x509Certificate)"
  tlscert :: "certState \<Rightarrow> error + tlsCertificate"
  putErr :: "(error \<times> (certKey \<rightharpoonup> tlsCertificate)) option"

text \<open>
  The Manager and the runtime, as far as the renewal code touches them: the shared map
  \<^verbatim>\<open>Manager.state\<close>, the contents of \<^verbatim>\<open>Manager.Cache\<close>, the timers of the
  runtime that are armed (handle and delay), the next fresh timer handle, the callbacks
  of fired timers that have not yet entered \<^verbatim>\<open>renew\<close>, how many clock readings and
  random draws were taken, and the trace.
\<close>

record world =
  state :: "certKey \<rightharpoonup> certState"
  cache :: "certKey \<rightharpoonup> tlsCertificate"
  armed :: "(nat \<times> Duration) list"
  fresh :: nat
  pending :: nat
  ticks :: nat
  drawn :: nat
  trace :: "event list"

record domainRenewal =
  ck :: certKey
  key :: signer
  timer :: "nat option"

subsection \<open>The standard library and the Manager's helpers\<close>

definition renewJitter :: Duration where
  "renewJitter = 3600000000000"

definition minDuration :: int where
  "minDuration = - (2 ^ 63)"

definition maxDuration :: int where
  "maxDuration = 2 ^ 63 - 1"

text \<open>\<^verbatim>\<open>Time.Sub\<close> of Go's time package: the difference, and the minimum or maximum
  duration when the difference cannot be stored in a \<^verbatim>\<open>Duration\<close>.\<close>

definition Sub :: "time \<Rightarrow> time \<Rightarrow> Duration" where
  "Sub t u =
     (if t - u < minDuration then word_of_int minDuration
      else if maxDuration < t - u then word_of_int maxDuration
      else word_of_int (t - u))"

definition emit :: "event \<Rightarrow> world \<Rightarrow> world" where
  "emit e w = w\<lparr>trace := trace w @ [e]\<rparr>"

text \<open>Modelled from the spec: \<^verbatim>\<open>Manager.now\<close> is missing from the sources; the
  spec's Clock is a current-time query. Each call takes the next reading.\<close>

definition now :: "env \<Rightarrow> world \<Rightarrow> time \<times> world" where
  "now e w = (nows e (ticks w), w\<lparr>ticks := Suc (ticks w)\<rparr>)"

text \<open>Modelled from the spec: \<^verbatim>\<open>pseudoRand.int63n\<close> is missing from the sources; the
  spec's RandomSource is a bounded uniform draw, a value of \<open>[0, n)\<close>. Each call
  consumes the next raw output. Both calls in this file pass a positive constant.\<close>

definition int63n :: "env \<Rightarrow> Duration \<Rightarrow> world \<Rightarrow> Duration \<times> world" where
  "int63n e n w = (word_of_nat (rands e (drawn w) mod unat n), w\<lparr>drawn := Suc (drawn w)\<rparr>)"

subsection \<open>next (lines 145-155)\<close>

definition "next" :: "env \<Rightarrow> time \<Rightarrow> world \<Rightarrow> Duration \<times> world" where
  "next e expiry w =
     (let (t, w1) = now e w;
          d = Sub expiry t - renewBefore e;
          (n, w2) = int63n e renewJitter w1;
          d = d - n
      in if sint d < 0 then (0, w2) else (d, w2))"

subsection \<open>The timers of the runtime\<close>

text \<open>\<^verbatim>\<open>time.AfterFunc(d, f)\<close> arms a new timer and returns its handle; when the delay
  has elapsed the runtime calls \<open>f\<close> in a goroutine of its own. \<^verbatim>\<open>Timer.Stop\<close>
  disarms a timer (and does nothing to one that fired).\<close>

definition AfterFunc :: "Duration \<Rightarrow> world \<Rightarrow> nat \<times> world" where
  "AfterFunc d w =
     (fresh w, (emit (TimerArm (fresh w) d) w)
                 \<lparr>armed := armed w @ [(fresh w, d)], fresh := Suc (fresh w)\<rparr>)"

definition disarm :: "nat \<Rightarrow> (nat \<times> Duration) list \<Rightarrow> (nat \<times> Duration) list" where
  "disarm h ts = filter (\<lambda>t. fst t \<noteq> h) ts"

definition Stop :: "nat \<Rightarrow> world \<Rightarrow> world" where
  "Stop h w = (emit (TimerStop h) w)\<lparr>armed := disarm h (armed w)\<rparr>"

subsection \<open>The cache\<close>

text \<open>Modelled from the spec: \<^verbatim>\<open>Manager.cacheGet\<close> and \<^verbatim>\<open>Manager.cachePut\<close> are
  missing from the sources. The spec's Cache answers \<^verbatim>\<open>get\<close> with the artifact,
  not-found or an error, and \<^verbatim>\<open>put\<close> with ok or an error.\<close>

definition cacheGet :: "env \<Rightarrow> certKey \<Rightarrow> world \<Rightarrow> (error + tlsCertificate) \<times> world" where
  "cacheGet e k w =
     (let w1 = emit (CacheGet k) w
      in case getErr e of
           Some err \<Rightarrow> (Inl err, w1)
         | None \<Rightarrow>
             (case cache w k of
                None \<Rightarrow> (Inl ErrCacheMiss, w1)
              | Some c \<Rightarrow> (Inr c, w1)))"

definition cachePut :: "env \<Rightarrow> certKey \<Rightarrow> tlsCertificate \<Rightarrow> world \<Rightarrow> error option \<times> world" where
  "cachePut e k c w =
     (let w1 = emit (CachePut k c) w
      in case putErr e of
           Some (err, left) \<Rightarrow> (Some err, w1\<lparr>cache := left\<rparr>)
         | None \<Rightarrow> (None, w1\<lparr>cache := (cache w)(k \<mapsto> c)\<rparr>))"

subsection \<open>updateState (lines 82-88)\<close>

definition updateState ::
  "certState \<Rightarrow> domainRenewal \<times> world \<Rightarrow> domainRenewal \<times> world" where
  "updateState st s =
     (case s of (dr, w) \<Rightarrow>
        let w1 = emit (Lock StateMu) w;
            dr1 = dr\<lparr>key := certState.key st\<rparr>;
            w2 = w1\<lparr>state := (state w1)(ck dr1 \<mapsto> st)\<rparr>
        in (dr1, emit (Unlock StateMu) w2))"

subsection \<open>do (lines 98-143)\<close>

text \<open>Lines 102-119, the check of the cached certificate: the delay and the state to
  adopt when the function returns at line 116, \<open>None\<close> when control reaches line 121.\<close>

definition do_cached ::
  "env \<Rightarrow> domainRenewal \<times> world \<Rightarrow> (Duration \<times> certState) option \<times> world" where
  "do_cached e s =
     (case s of (dr, w) \<Rightarrow>
        let (r, w1) = cacheGet e (ck dr) w
        in case r of
             Inl err \<Rightarrow> (None, w1)
           | Inr tc \<Rightarrow>
               let (nxt, w2) = next e (NotAfter (Leaf tc)) w1
               in if sint (renewBefore e + renewJitter) < sint nxt
                  then (case PrivateKey tc of
                          IsSigner sg \<Rightarrow>
                            (Some (nxt, \<lparr>certState.key = sg, cert = Certificate tc, leaf = Leaf tc\<rparr>), w2)
                        | NotSigner x \<Rightarrow> (None, w2))
                  else (None, w2))"

text \<open>Lines 121-142, the request of a new certificate.\<close>

definition do_issue ::
  "env \<Rightarrow> domainRenewal \<times> world \<Rightarrow> (error + Duration) \<times> domainRenewal \<times> world" where
  "do_issue e s =
     (case s of (dr, w) \<Rightarrow>
        let w1 = emit (AuthorizedCert (key dr) (ck dr)) w
        in case authorizedCert e (key dr) (ck dr) of
             Inl err \<Rightarrow> (Inl err, dr, w1)
           | Inr (der, lf) \<Rightarrow>
               let st = \<lparr>certState.key = key dr, cert = der, leaf = lf\<rparr>
               in case tlscert e st of
                    Inl err \<Rightarrow> (Inl err, dr, w1)
                  | Inr tc \<Rightarrow>
                      (case cachePut e (ck dr) tc w1 of
                         (Some err, w2) \<Rightarrow> (Inl err, dr, w2)
                       | (None, w2) \<Rightarrow>
                           let (dr3, w3) = updateState st (dr, w2);
                               (nxt, w4) = next e (NotAfter lf) w3
                           in (Inr nxt, dr3, w4)))"

definition do :: "env \<Rightarrow> domainRenewal \<times> world \<Rightarrow> (error + Duration) \<times> domainRenewal \<times> world" where
  "do e s =
     (case s of (dr, w) \<Rightarrow>
        case do_cached e (dr, w) of
          (Some (nxt, st), w2) \<Rightarrow>
            let (dr3, w3) = updateState st (dr, w2) in (Inr nxt, dr3, w3)
        | (None, w2) \<Rightarrow> do_issue e (dr, w2))"

subsection \<open>start, stop and renew (lines 33-78)\<close>

definition start :: "env \<Rightarrow> time \<Rightarrow> domainRenewal \<times> world \<Rightarrow> domainRenewal \<times> world" where
  "start e exp s =
     (case s of (dr, w) \<Rightarrow>
        let w1 = emit (Lock TimerMu) w
        in if timer dr \<noteq> None then (dr, emit (Unlock TimerMu) w1)
           else let (d, w2) = next e exp w1;
                    (h, w3) = AfterFunc d w2
                in (dr\<lparr>timer := Some h\<rparr>, emit (Unlock TimerMu) w3))"

definition stop :: "domainRenewal \<times> world \<Rightarrow> domainRenewal \<times> world" where
  "stop s =
     (case s of (dr, w) \<Rightarrow>
        let w1 = emit (Lock TimerMu) w
        in case timer dr of
             None \<Rightarrow> (dr, emit (Unlock TimerMu) w1)
           | Some h \<Rightarrow> (dr\<lparr>timer := None\<rparr>, emit (Unlock TimerMu) (Stop h w1)))"

text \<open>The backoff of lines 73-74. \<^verbatim>\<open>renewJitter / 2\<close> is a constant expression.\<close>

definition backoff :: "env \<Rightarrow> world \<Rightarrow> Duration \<times> world" where
  "backoff e w =
     (let nxt = renewJitter div 2;
          (u, w1) = int63n e nxt w
      in (nxt + u, w1))"

definition renew :: "env \<Rightarrow> domainRenewal \<times> world \<Rightarrow> domainRenewal \<times> world" where
  "renew e s =
     (case s of (dr, w) \<Rightarrow>
        let w1 = emit (Lock TimerMu) w
        in if timer dr = None then (dr, emit (Unlock TimerMu) w1)
           else let (r, dr2, w2) = do e (dr, w1);
                    (nxt, w3) = (case r of Inr d \<Rightarrow> (d, w2) | Inl err \<Rightarrow> backoff e w2);
                    (h, w4) = AfterFunc nxt w3;
                    dr4 = dr2\<lparr>timer := Some h\<rparr>;
                    w5 = emit (TestDidRenewLoop nxt (case r of Inr d \<Rightarrow> None | Inl err \<Rightarrow> Some err)) w4
                in (dr4, emit (Unlock TimerMu) w5))"

text \<open>The delay that lines 71-75 choose from the result of \<open>do\<close>: the delay \<open>do\<close>
  returned, or the backoff when it returned an error.\<close>

definition chosen :: "env \<Rightarrow> (error + Duration) \<times> domainRenewal \<times> world \<Rightarrow> Duration" where
  "chosen e res = (case fst res of Inr d \<Rightarrow> d | Inl err \<Rightarrow> fst (backoff e (snd (snd res))))"

subsection \<open>Locks and calls in a trace\<close>

text \<open>The calls that reach the cache or the network.\<close>

fun is_call :: "event \<Rightarrow> bool" where
  "is_call (CacheGet k) = True"
| "is_call (AuthorizedCert sg k) = True"
| "is_call (CachePut k c) = True"
| "is_call ev = False"

text \<open>\<open>held_across l h evs\<close>: some call of \<open>evs\<close> is made while the lock \<open>l\<close> is
  held, where \<open>h\<close> tells whether it is held at the start.\<close>

fun held_across :: "lock \<Rightarrow> bool \<Rightarrow> event list \<Rightarrow> bool" where
  "held_across l h [] = False"
| "held_across l h (Lock l' # evs) = held_across l (h \<or> l' = l) evs"
| "held_across l h (Unlock l' # evs) = held_across l (h \<and> l' \<noteq> l) evs"
| "held_across l h (ev # evs) = ((h \<and> is_call ev) \<or> held_across l h evs)"

text \<open>\<open>calls_under l h evs\<close>: every call of \<open>evs\<close> is made while the lock \<open>l\<close> is
  held, where \<open>h\<close> tells whether it is held at the start.\<close>

fun calls_under :: "lock \<Rightarrow> bool \<Rightarrow> event list \<Rightarrow> bool" where
  "calls_under l h [] = True"
| "calls_under l h (Lock l' # evs) = calls_under l (h \<or> l' = l) evs"
| "calls_under l h (Unlock l' # evs) = calls_under l (h \<and> l' \<noteq> l) evs"
| "calls_under l h (ev # evs) = ((if is_call ev then h else True) \<and> calls_under l h evs)"

text \<open>\<open>held_throughout l evs\<close>: the first event of \<open>evs\<close> takes the lock \<open>l\<close>, the last
  one releases it, and it is not released in between.\<close>

definition held_throughout :: "lock \<Rightarrow> event list \<Rightarrow> bool" where
  "held_throughout l evs =
     (case evs of
        [] \<Rightarrow> False
      | ev # rest \<Rightarrow>
          ev = Lock l \<and> rest \<noteq> [] \<and> last rest = Unlock l \<and> Unlock l \<notin> set (butlast rest))"

text \<open>The events a run appends to the trace of the world it starts from.\<close>

definition events :: "world \<Rightarrow> world \<Rightarrow> event list" where
  "events w w' = drop (length (trace w)) (trace w')"

subsection \<open>The record among the goroutines\<close>

text \<open>
  What can happen to one record: its owner calls \<^verbatim>\<open>start\<close> or \<^verbatim>\<open>stop\<close>, an
  armed timer fires (the runtime then starts a goroutine for \<^verbatim>\<open>dr.renew\<close>), and a
  started callback takes \<^verbatim>\<open>timerMu\<close> and runs. The three methods hold
  \<^verbatim>\<open>timerMu\<close> from their first to their last statement, so each is one step.
\<close>

datatype action = CallStart time | CallStop | Fires nat | Enters

definition step :: "env \<Rightarrow> action \<Rightarrow> domainRenewal \<times> world \<Rightarrow> domainRenewal \<times> world" where
  "step e a s =
     (case s of (dr, w) \<Rightarrow>
        case a of
          CallStart exp \<Rightarrow> start e exp (dr, w)
        | CallStop \<Rightarrow> stop (dr, w)
        | Fires h \<Rightarrow>
            if h \<in> fst ` set (armed w)
            then (dr, w\<lparr>armed := disarm h (armed w), pending := Suc (pending w)\<rparr>)
            else (dr, w)
        | Enters \<Rightarrow>
            if pending w = 0 then (dr, w)
            else renew e (dr, w\<lparr>pending := pending w - 1\<rparr>))"

fun run :: "env \<Rightarrow> action list \<Rightarrow> domainRenewal \<times> world \<Rightarrow> domainRenewal \<times> world" where
  "run e [] s = s"
| "run e (a # as) s = run e as (step e a s)"

text \<open>The record and the runtime agree on at most one timer: a record without a handle
  has no armed timer and no callback on its way; a record with a handle has either the
  timer of that handle armed, or one fired callback on its way and no timer armed.\<close>

definition one_timer :: "domainRenewal \<times> world \<Rightarrow> bool" where
  "one_timer s =
     (case s of (dr, w) \<Rightarrow>
        case timer dr of
          None \<Rightarrow> armed w = [] \<and> pending w = 0
        | Some h \<Rightarrow>
            (pending w = 0 \<and> map fst (armed w) = [h]) \<or> (pending w = 1 \<and> armed w = []))"

subsection \<open>A Manager to run the code on\<close>

definition day :: int where
  "day = 86400000000000"

definition exampleLeaf :: "time \<Rightarrow> x509Certificate" where
  "exampleLeaf t = \<lparr>NotAfter = t, Raw = []\<rparr>"

text \<open>A Manager that renews 30 days before expiry, whose clock reads \<open>t\<close>, whose
  random source yields \<open>r\<close> and whose certificate authority issues for 90 days.\<close>

definition exampleEnv :: "time \<Rightarrow> nat \<Rightarrow> env" where
  "exampleEnv t r =
     \<lparr>renewBefore = 2592000000000000,
      nows = (\<lambda>i. t),
      rands = (\<lambda>i. r),
      getErr = None,
      authorizedCert = (\<lambda>sg k. Inr ([[1]], exampleLeaf (t + 90 * day))),
      tlscert = (\<lambda>st. Inr \<lparr>Certificate = cert st, PrivateKey = IsSigner (certState.key st),
                                 Leaf = leaf st\<rparr>),
      putErr = None\<rparr>"

definition exampleWorld :: world where
  "exampleWorld =
     \<lparr>state = Map.empty, cache = Map.empty, armed = [], fresh = 0, pending = 0,
      ticks = 0, drawn = 0, trace = []\<rparr>"

definition exampleRenewal :: domainRenewal where
  "exampleRenewal = \<lparr>ck = ''example.org'', key = Signer 1, timer = None\<rparr>"

text \<open>A certificate in the cache, renewed by another instance, that expires at \<open>t\<close>.\<close>

definition peerCert :: "privateKey \<Rightarrow> time \<Rightarrow> tlsCertificate" where
  "peerCert k t = \<lparr>Certificate = [[2]], PrivateKey = k, Leaf = exampleLeaf t\<rparr>"

definition peerWorld :: "privateKey \<Rightarrow> world" where
  "peerWorld k = exampleWorld\<lparr>cache := [''example.org'' \<mapsto> peerCert k (90 * day)]\<rparr>"

text \<open>The same Manager when the certificate authority cannot be reached.\<close>

definition issuerDown :: env where
  "issuerDown = (exampleEnv 0 1000)\<lparr>authorizedCert := (\<lambda>sg k. Inl (Err ''acme: unreachable''))\<rparr>"

text \<open>A record whose first timer, of handle 0, has fired.\<close>

definition firedRenewal :: domainRenewal where
  "firedRenewal = exampleRenewal\<lparr>timer := Some 0\<rparr>"

definition firedWorld :: world where
  "firedWorld = exampleWorld\<lparr>fresh := 1\<rparr>"

section \<open>Properties\<close>

subsection \<open>Durations as signed 64-bit values\<close>

lemmas example_defs = exampleEnv_def exampleWorld_def exampleRenewal_def peerWorld_def
  peerCert_def exampleLeaf_def day_def issuerDown_def firedRenewal_def firedWorld_def

lemma sint_of_int_64:
  "- (2 ^ 63) \<le> k \<Longrightarrow> k < 2 ^ 63 \<Longrightarrow> sint (word_of_int k :: 64 word) = k"
  by (simp add: sint_sbintrunc' signed_take_bit_int_eq_self)

lemma sint_diff_64:
  "- (2 ^ 63) \<le> sint a - sint b \<Longrightarrow> sint a - sint b < 2 ^ 63 \<Longrightarrow>
   sint (a - b :: 64 word) = sint a - sint b"
  by (simp add: sint_word_diff signed_take_bit_int_eq_self)

lemma sint_Sub:
  "minDuration \<le> t - u \<Longrightarrow> t - u \<le> maxDuration \<Longrightarrow> sint (Sub t u) = t - u"
proof -
  assume a: "minDuration \<le> t - u" "t - u \<le> maxDuration"
  have "Sub t u = word_of_int (t - u)"
    using a unfolding Sub_def by simp
  moreover have "sint (word_of_int (t - u) :: 64 word) = t - u"
    using a by (intro sint_of_int_64) (simp_all add: minDuration_def maxDuration_def)
  ultimately show ?thesis by simp
qed

lemma sint_renewJitter: "sint renewJitter = 3600000000000"
  by (simp add: renewJitter_def)

lemma threshold_no_overflow:
  assumes "sint (L :: 64 word) + sint renewJitter < sint (nxt :: 64 word)"
  shows "sint (L + renewJitter) < sint nxt"
proof -
  have "sint nxt < 2 ^ 63" using sint_lt [of nxt] by simp
  moreover have "- (2 ^ 63) \<le> sint L" using sint_ge [of L] by simp
  ultimately have "sint (L + renewJitter) = sint L + sint renewJitter"
    using assms by (simp add: sint_word_ariths signed_take_bit_int_eq_self sint_renewJitter)
  then show ?thesis using assms by simp
qed

subsection \<open>The delay computation\<close>

lemma next_val:
  "fst (next e expiry w) =
     (let d = Sub expiry (fst (now e w)) - renewBefore e
                - fst (int63n e renewJitter (snd (now e w)))
      in if sint d < 0 then 0 else d)"
  by (simp add: next_def Let_def split: prod.splits)

lemma next_world:
  "snd (next e expiry w) = w\<lparr>ticks := Suc (ticks w), drawn := Suc (drawn w)\<rparr>"
  by (simp add: next_def now_def int63n_def Let_def)

lemma next_counters:
  "ticks w = ticks v \<Longrightarrow> drawn w = drawn v \<Longrightarrow> fst (next e expiry w) = fst (next e expiry v)"
  by (simp add: next_val now_def int63n_def)

text \<open>
  C1 (as amended). The result of \<open>next\<close> is never negative. When the clock reads \<open>N\<close>,
  the lead time is \<open>L\<close> and the draw is \<open>U\<close>, a value of \<open>[0, renewJitter)\<close>, and
  when \<open>E - N\<close>, \<open>E - N - L\<close> and \<open>E - N - L - U\<close> all fit a signed 64-bit count of
  nanoseconds, the result is exactly \<open>max 0 (E - N - L - U)\<close>.
\<close>

theorem next_delay:
  "0 \<le> sint (fst (next e E w)) \<and>
   (fst (now e w) = N \<and> sint (renewBefore e) = L \<and>
    fst (int63n e renewJitter (snd (now e w))) = word_of_int U \<and>
    0 \<le> U \<and> U < sint renewJitter \<and>
    minDuration \<le> E - N \<and> E - N \<le> maxDuration \<and>
    minDuration \<le> E - N - L \<and> E - N - L \<le> maxDuration \<and>
    minDuration \<le> E - N - L - U
    \<longrightarrow> sint (fst (next e E w)) = max 0 (E - N - L - U))"
proof (intro conjI impI)
  show "0 \<le> sint (fst (next e E w))"
    by (simp add: next_val Let_def)
next
  assume h: "fst (now e w) = N \<and> sint (renewBefore e) = L \<and>
    fst (int63n e renewJitter (snd (now e w))) = word_of_int U \<and>
    0 \<le> U \<and> U < sint renewJitter \<and>
    minDuration \<le> E - N \<and> E - N \<le> maxDuration \<and>
    minDuration \<le> E - N - L \<and> E - N - L \<le> maxDuration \<and>
    minDuration \<le> E - N - L - U"
  have s1: "sint (Sub E N) = E - N"
    using h by (simp add: sint_Sub)
  have s2: "sint (Sub E N - renewBefore e) = E - N - L"
    using h s1 by (simp add: sint_diff_64 minDuration_def maxDuration_def)
  have s3: "sint (word_of_int U :: 64 word) = U"
    using h by (simp add: sint_of_int_64 sint_renewJitter)
  have s4: "sint (Sub E N - renewBefore e - word_of_int U) = E - N - L - U"
    using h s2 s3 by (simp add: sint_diff_64 minDuration_def maxDuration_def)
  show "sint (fst (next e E w)) = max 0 (E - N - L - U)"
    using h s4 by (simp add: next_val Let_def max_def)
qed

text \<open>
  The theorem at work: the clock reads 0, the certificate expires in 45 days, the lead
  time is 30 days and the draw is 1000 ns; the delay is 15 days less 1000 ns.
\<close>

theorem next_delay_witness:
  "fst (now (exampleEnv 0 1000) exampleWorld) = 0 \<and>
   sint (renewBefore (exampleEnv 0 1000)) = 30 * day \<and>
   fst (int63n (exampleEnv 0 1000) renewJitter (snd (now (exampleEnv 0 1000) exampleWorld))) = 1000 \<and>
   sint (fst (next (exampleEnv 0 1000) (45 * day) exampleWorld)) = 15 * day - 1000"
proof -
  have a: "fst (now (exampleEnv 0 1000) exampleWorld) = 0"
    by (simp add: now_def example_defs)
  have b: "sint (renewBefore (exampleEnv 0 1000)) = 30 * day"
    by (simp add: example_defs)
  have c: "fst (int63n (exampleEnv 0 1000) renewJitter (snd (now (exampleEnv 0 1000) exampleWorld)))
             = word_of_int 1000"
    by (simp add: now_def int63n_def renewJitter_def example_defs)
  have d: "(0::int) \<le> 1000 \<and> 1000 < sint renewJitter \<and>
      minDuration \<le> 45 * day - 0 \<and> 45 * day - 0 \<le> maxDuration \<and>
      minDuration \<le> 45 * day - 0 - 30 * day \<and> 45 * day - 0 - 30 * day \<le> maxDuration \<and>
      minDuration \<le> 45 * day - 0 - 30 * day - 1000"
    by (simp add: renewJitter_def minDuration_def maxDuration_def day_def)
  have "sint (fst (next (exampleEnv 0 1000) (45 * day) exampleWorld))
          = max 0 (45 * day - 0 - 30 * day - 1000)"
    using next_delay [of "exampleEnv 0 1000" "45 * day" exampleWorld 0 "30 * day" 1000] a b c d
    by blast
  then show ?thesis using a b c by (simp add: day_def)
qed

text \<open>
  C1 as stated fails where the difference of the two instants does not fit a
  \<^verbatim>\<open>Duration\<close>. The expiry is the zero instant and the clock reads
  63900000000000000000 ns, more than 292 years later: \<^verbatim>\<open>Sub\<close> answers the minimum
  duration, subtracting the lead time of 30 days wraps around, and \<open>next\<close> returns
  9220780036854774808 ns, where \<open>max 0 (E - N - L - U)\<close> is 0.
\<close>

theorem next_delay_counterexample:
  "fst (now (exampleEnv 63900000000000000000 1000) exampleWorld) = 63900000000000000000 \<and>
   sint (renewBefore (exampleEnv 63900000000000000000 1000)) = 30 * day \<and>
   fst (int63n (exampleEnv 63900000000000000000 1000) renewJitter
          (snd (now (exampleEnv 63900000000000000000 1000) exampleWorld))) = 1000 \<and>
   sint (fst (next (exampleEnv 63900000000000000000 1000) 0 exampleWorld)) = 9220780036854774808 \<and>
   max 0 (0 - 63900000000000000000 - 30 * day - 1000) = 0"
  by (simp add: next_val now_def int63n_def Sub_def minDuration_def maxDuration_def
      renewJitter_def example_defs)

subsection \<open>The cache, the shared map and the two halves of do\<close>

lemma events_append: "trace w' = trace w @ evs \<Longrightarrow> events w w' = evs"
  by (simp add: events_def)

lemma cacheGet_world: "snd (cacheGet e k w) = emit (CacheGet k) w"
  by (simp add: cacheGet_def Let_def split: option.splits)

lemma cacheGet_val:
  "fst (cacheGet e k w) =
     (case getErr e of Some err \<Rightarrow> Inl err
      | None \<Rightarrow> (case cache w k of None \<Rightarrow> Inl ErrCacheMiss | Some c \<Rightarrow> Inr c))"
  by (simp add: cacheGet_def Let_def split: option.splits)

lemma updateState_eq:
  "updateState st (dr, w) =
     (dr\<lparr>key := certState.key st\<rparr>,
      w\<lparr>state := (state w)(ck dr \<mapsto> st), trace := trace w @ [Lock StateMu, Unlock StateMu]\<rparr>)"
  by (simp add: updateState_def emit_def Let_def)

lemma do_cached_world:
  "snd (do_cached e (dr, w)) =
     (case fst (cacheGet e (ck dr) w) of
        Inl err \<Rightarrow> w\<lparr>trace := trace w @ [CacheGet (ck dr)]\<rparr>
      | Inr tc \<Rightarrow> w\<lparr>ticks := Suc (ticks w), drawn := Suc (drawn w),
                       trace := trace w @ [CacheGet (ck dr)]\<rparr>)"
  apply (simp add: do_cached_def Let_def split_beta cacheGet_world next_world
      split: sum.splits privateKey.splits)
  apply (simp add: emit_def)
  done

lemma do_cached_val:
  "fst (do_cached e (dr, w)) =
     (case fst (cacheGet e (ck dr) w) of
        Inl err \<Rightarrow> None
      | Inr tc \<Rightarrow>
          (let nxt = fst (next e (NotAfter (Leaf tc)) (snd (cacheGet e (ck dr) w)))
           in if sint (renewBefore e + renewJitter) < sint nxt
              then (case PrivateKey tc of
                      IsSigner sg \<Rightarrow> Some (nxt, \<lparr>certState.key = sg, cert = Certificate tc, leaf = Leaf tc\<rparr>)
                    | NotSigner x \<Rightarrow> None)
              else None))"
  by (simp add: do_cached_def Let_def split_beta split: sum.splits privateKey.splits)

lemma do_cached_trace:
  "trace (snd (do_cached e (dr, w))) = trace w @ [CacheGet (ck dr)]"
  by (simp add: do_cached_world split: sum.splits)

lemma do_cached_frame:
  "state (snd (do_cached e (dr, w))) = state w"
  "cache (snd (do_cached e (dr, w))) = cache w"
  "armed (snd (do_cached e (dr, w))) = armed w"
  "fresh (snd (do_cached e (dr, w))) = fresh w"
  "pending (snd (do_cached e (dr, w))) = pending w"
  by (simp_all add: do_cached_world split: sum.splits)

lemma do_cached_adopts:
  assumes "fst (cacheGet e (ck dr) w) = Inr tc"
      and "nxt = fst (next e (NotAfter (Leaf tc)) (snd (cacheGet e (ck dr) w)))"
      and "sint (renewBefore e) + sint renewJitter < sint nxt"
      and "PrivateKey tc = IsSigner sg"
  shows "fst (do_cached e (dr, w)) =
           Some (nxt, \<lparr>certState.key = sg, cert = Certificate tc, leaf = Leaf tc\<rparr>)"
  using assms threshold_no_overflow [of "renewBefore e" nxt]
  by (simp add: do_cached_val Let_def)

lemma do_cached_not_signer:
  assumes "fst (cacheGet e (ck dr) w) = Inr tc"
      and "PrivateKey tc = NotSigner x"
  shows "fst (do_cached e (dr, w)) = None"
  using assms by (simp add: do_cached_val Let_def)

lemma do_issue_fail_issue:
  "authorizedCert e (key dr) (ck dr) = Inl err \<Longrightarrow>
   do_issue e (dr, w) = (Inl err, dr, w\<lparr>trace := trace w @ [AuthorizedCert (key dr) (ck dr)]\<rparr>)"
  by (simp add: do_issue_def emit_def Let_def)

lemma do_issue_fail_tlscert:
  "authorizedCert e (key dr) (ck dr) = Inr (der, lf) \<Longrightarrow>
   tlscert e \<lparr>certState.key = key dr, cert = der, leaf = lf\<rparr> = Inl err \<Longrightarrow>
   do_issue e (dr, w) = (Inl err, dr, w\<lparr>trace := trace w @ [AuthorizedCert (key dr) (ck dr)]\<rparr>)"
  by (simp add: do_issue_def emit_def Let_def)

lemma do_issue_fail_cachePut:
  "authorizedCert e (key dr) (ck dr) = Inr (der, lf) \<Longrightarrow>
   tlscert e \<lparr>certState.key = key dr, cert = der, leaf = lf\<rparr> = Inr tc \<Longrightarrow>
   putErr e = Some (err, left) \<Longrightarrow>
   do_issue e (dr, w) =
     (Inl err, dr,
      w\<lparr>cache := left, trace := trace w @ [AuthorizedCert (key dr) (ck dr), CachePut (ck dr) tc]\<rparr>)"
  by (simp add: do_issue_def cachePut_def emit_def Let_def)

lemma do_issue_ok:
  "authorizedCert e (key dr) (ck dr) = Inr (der, lf) \<Longrightarrow>
   tlscert e \<lparr>certState.key = key dr, cert = der, leaf = lf\<rparr> = Inr tc \<Longrightarrow>
   putErr e = None \<Longrightarrow>
   do_issue e (dr, w) =
     (Inr (fst (next e (NotAfter lf) w)), dr,
      w\<lparr>state := (state w)(ck dr \<mapsto> \<lparr>certState.key = key dr, cert = der, leaf = lf\<rparr>),
        cache := (cache w)(ck dr \<mapsto> tc),
        ticks := Suc (ticks w), drawn := Suc (drawn w),
        trace := trace w @ [AuthorizedCert (key dr) (ck dr), CachePut (ck dr) tc,
                            Lock StateMu, Unlock StateMu]\<rparr>)"
  apply (simp add: do_issue_def cachePut_def emit_def Let_def updateState_eq split_beta next_world)
  apply (rule next_counters)
   apply simp_all
  done

lemma do_issue_error:
  assumes "fst (do_issue e (dr, w)) = Inl err"
  shows "fst (snd (do_issue e (dr, w))) = dr \<and>
         state (snd (snd (do_issue e (dr, w)))) = state w \<and>
         ((\<forall>k c. CachePut k c \<notin> set (events w (snd (snd (do_issue e (dr, w)))))) \<longrightarrow>
            cache (snd (snd (do_issue e (dr, w)))) = cache w)"
proof (cases "authorizedCert e (key dr) (ck dr)")
  case (Inl a)
  show ?thesis by (simp add: do_issue_fail_issue [OF Inl])
next
  case (Inr p)
  obtain der lf where p: "p = (der, lf)" by (cases p)
  note ac = Inr [unfolded p]
  show ?thesis
  proof (cases "tlscert e \<lparr>certState.key = key dr, cert = der, leaf = lf\<rparr>")
    case (Inl a)
    show ?thesis by (simp add: do_issue_fail_tlscert [OF ac Inl])
  next
    case (Inr tc)
    show ?thesis
    proof (cases "putErr e")
      case None
      from assms show ?thesis by (simp add: do_issue_ok [OF ac Inr None])
    next
      case (Some q)
      obtain err' left where q: "q = (err', left)" by (cases q)
      show ?thesis
        by (simp add: do_issue_fail_cachePut [OF ac Inr Some [unfolded q]] events_def)
    qed
  qed
qed

lemma do_issue_trace_grows: "\<exists>evs. trace (snd (snd (do_issue e (dr, w)))) = trace w @ evs"
  by (simp add: do_issue_def cachePut_def emit_def Let_def updateState_eq split_beta next_world
        split: sum.splits option.splits prod.splits)

lemma do_issue_events:
  assumes "trace w2 = trace w @ xs"
  shows "events w (snd (snd (do_issue e (dr, w2)))) = xs @ events w2 (snd (snd (do_issue e (dr, w2))))"
proof -
  obtain evs where "trace (snd (snd (do_issue e (dr, w2)))) = trace w2 @ evs"
    using do_issue_trace_grows by blast
  then show ?thesis using assms by (simp add: events_def)
qed

lemma do_adopt:
  "do_cached e (dr, w) = (Some (nxt, st), w2) \<Longrightarrow>
   do e (dr, w) =
     (Inr nxt, dr\<lparr>key := certState.key st\<rparr>,
      w2\<lparr>state := (state w2)(ck dr \<mapsto> st), trace := trace w2 @ [Lock StateMu, Unlock StateMu]\<rparr>)"
  by (simp add: do_def updateState_eq)

lemma do_fall_through:
  "do_cached e (dr, w) = (None, w2) \<Longrightarrow> do e (dr, w) = do_issue e (dr, w2)"
  by (simp add: do_def)

subsection \<open>Adopting a certificate renewed by a peer\<close>

text \<open>
  C2. The cache answers with a certificate \<open>tc\<close>, the delay \<open>nxt\<close> recomputed from
  its expiry exceeds the lead time plus \<open>renewJitter\<close>, and its private key is a
  signer. Then \<open>do\<close> returns \<open>nxt\<close> and no error, the record takes the cached key,
  the shared map holds for this domain the state built from the cached certificate, and
  the only events are the cache read and the locked update of the map: no call of
  \<^verbatim>\<open>authorizedCert\<close> is made.
\<close>

theorem do_adopts_cached:
  assumes "fst (cacheGet e (ck dr) w) = Inr tc"
      and "nxt = fst (next e (NotAfter (Leaf tc)) (snd (cacheGet e (ck dr) w)))"
      and "sint (renewBefore e) + sint renewJitter < sint nxt"
      and "PrivateKey tc = IsSigner sg"
  shows "fst (do e (dr, w)) = Inr nxt \<and>
         fst (snd (do e (dr, w))) = dr\<lparr>key := sg\<rparr> \<and>
         state (snd (snd (do e (dr, w)))) =
           (state w)(ck dr \<mapsto> \<lparr>certState.key = sg, cert = Certificate tc, leaf = Leaf tc\<rparr>) \<and>
         trace (snd (snd (do e (dr, w)))) =
           trace w @ [CacheGet (ck dr), Lock StateMu, Unlock StateMu] \<and>
         (\<forall>k c. AuthorizedCert k c \<notin> set (events w (snd (snd (do e (dr, w))))))"
proof -
  obtain w2 where c: "do_cached e (dr, w) =
      (Some (nxt, \<lparr>certState.key = sg, cert = Certificate tc, leaf = Leaf tc\<rparr>), w2)"
    using do_cached_adopts [OF assms] by (cases "do_cached e (dr, w)") simp
  have w2: "state w2 = state w" "trace w2 = trace w @ [CacheGet (ck dr)]"
    using c do_cached_frame(1) [of e dr w] do_cached_trace [of e dr w] by simp_all
  have ev: "events w (snd (snd (do e (dr, w)))) = [CacheGet (ck dr), Lock StateMu, Unlock StateMu]"
    by (rule events_append) (simp add: do_adopt [OF c] w2)
  show ?thesis
    by (simp add: ev) (simp add: do_adopt [OF c] w2)
qed

text \<open>
  The theorem at work: the cache holds a certificate that expires in 90 days, the lead
  time is 30 days, the draw is 1000 ns.
\<close>

theorem do_adopts_cached_witness:
  "fst (do (exampleEnv 0 1000) (exampleRenewal, peerWorld (IsSigner (Signer 7)))) = Inr 5183999999999000 \<and>
   key (fst (snd (do (exampleEnv 0 1000) (exampleRenewal, peerWorld (IsSigner (Signer 7)))))) = Signer 7 \<and>
   trace (snd (snd (do (exampleEnv 0 1000) (exampleRenewal, peerWorld (IsSigner (Signer 7)))))) =
     [CacheGet ''example.org'', Lock StateMu, Unlock StateMu]"
proof -
  let ?e = "exampleEnv 0 1000" and ?w = "peerWorld (IsSigner (Signer 7))"
  let ?tc = "peerCert (IsSigner (Signer 7)) (90 * day)"
  have 1: "fst (cacheGet ?e (ck exampleRenewal) ?w) = Inr ?tc"
    by (simp add: cacheGet_val example_defs)
  have 2: "5183999999999000 = fst (next ?e (NotAfter (Leaf ?tc)) (snd (cacheGet ?e (ck exampleRenewal) ?w)))"
    by (simp add: next_val now_def int63n_def Sub_def minDuration_def maxDuration_def
        renewJitter_def example_defs)
  have 3: "sint (renewBefore ?e) + sint renewJitter < sint (5183999999999000 :: 64 word)"
    by (simp add: renewJitter_def example_defs)
  have 4: "PrivateKey ?tc = IsSigner (Signer 7)"
    by (simp add: example_defs)
  show ?thesis
    using do_adopts_cached [OF 1 2 3 4] by (simp add: example_defs)
qed

text \<open>
  C10. On the path that adopts the cached certificate (line 116), \<open>do\<close> leaves the
  contents of the cache as they were and makes no \<^verbatim>\<open>cachePut\<close> call; the entry of
  every other domain in the shared map is unchanged; what changes is the entry of this
  domain and the key of the record, both set by \<^verbatim>\<open>updateState\<close>. The timers are
  untouched.
\<close>

theorem do_adopt_frame:
  assumes "fst (do_cached e (dr, w)) = Some (nxt, st)"
  shows "fst (do e (dr, w)) = Inr nxt \<and>
         cache (snd (snd (do e (dr, w)))) = cache w \<and>
         (\<forall>k. k \<noteq> ck dr \<longrightarrow> state (snd (snd (do e (dr, w)))) k = state w k) \<and>
         state (snd (snd (do e (dr, w)))) (ck dr) = Some st \<and>
         fst (snd (do e (dr, w))) = dr\<lparr>key := certState.key st\<rparr> \<and>
         armed (snd (snd (do e (dr, w)))) = armed w \<and>
         fresh (snd (snd (do e (dr, w)))) = fresh w \<and>
         pending (snd (snd (do e (dr, w)))) = pending w \<and>
         (\<forall>k c. CachePut k c \<notin> set (events w (snd (snd (do e (dr, w))))))"
proof -
  obtain w2 where c: "do_cached e (dr, w) = (Some (nxt, st), w2)"
    using assms by (cases "do_cached e (dr, w)") simp
  have w2: "state w2 = state w" "cache w2 = cache w" "armed w2 = armed w"
    "fresh w2 = fresh w" "pending w2 = pending w" "trace w2 = trace w @ [CacheGet (ck dr)]"
    using c do_cached_frame [of e dr w] do_cached_trace [of e dr w] by simp_all
  have ev: "events w (snd (snd (do e (dr, w)))) = [CacheGet (ck dr), Lock StateMu, Unlock StateMu]"
    by (rule events_append) (simp add: do_adopt [OF c] w2)
  show ?thesis
    by (simp add: ev) (simp add: do_adopt [OF c] w2)
qed

text \<open>
  The theorem at work, on the cache of the previous example.
\<close>

theorem do_adopt_frame_witness:
  "fst (do (exampleEnv 0 1000) (exampleRenewal, peerWorld (IsSigner (Signer 7)))) = Inr 5183999999999000 \<and>
   cache (snd (snd (do (exampleEnv 0 1000) (exampleRenewal, peerWorld (IsSigner (Signer 7))))))
     = cache (peerWorld (IsSigner (Signer 7))) \<and>
   state (snd (snd (do (exampleEnv 0 1000) (exampleRenewal, peerWorld (IsSigner (Signer 7))))))
     ''other.example'' = None \<and>
   key (fst (snd (do (exampleEnv 0 1000) (exampleRenewal, peerWorld (IsSigner (Signer 7)))))) = Signer 7"
proof -
  have "fst (do_cached (exampleEnv 0 1000) (exampleRenewal, peerWorld (IsSigner (Signer 7)))) =
          Some (5183999999999000,
                \<lparr>certState.key = Signer 7, cert = [[2]], leaf = exampleLeaf (90 * day)\<rparr>)"
    by (simp add: do_cached_val cacheGet_val cacheGet_world emit_def next_val now_def int63n_def
        Sub_def minDuration_def maxDuration_def renewJitter_def example_defs)
  from do_adopt_frame [OF this] show ?thesis
    by (simp add: example_defs)
qed

text \<open>
  C8. The cache answers with a certificate whose recomputed delay exceeds the lead time
  plus \<open>renewJitter\<close> but whose private key is not a signer. Then \<open>do\<close> neither
  returns at this point nor touches the shared map or the record: it goes on as lines
  121-142 do from the world after the cache read, and its next call is
  \<^verbatim>\<open>authorizedCert\<close> with the key the record already has. When the request, the
  derivation and the cache write succeed, \<open>do\<close> returns no error and the shared map
  holds the state issued for the record's key.
\<close>

theorem do_not_signer_falls_through:
  assumes "fst (cacheGet e (ck dr) w) = Inr tc"
      and "nxt = fst (next e (NotAfter (Leaf tc)) (snd (cacheGet e (ck dr) w)))"
      and "sint (renewBefore e) + sint renewJitter < sint nxt"
      and "PrivateKey tc = NotSigner x"
  shows "do e (dr, w) =
           do_issue e (dr, w\<lparr>ticks := Suc (ticks w), drawn := Suc (drawn w),
                                trace := trace w @ [CacheGet (ck dr)]\<rparr>) \<and>
         take 2 (events w (snd (snd (do e (dr, w))))) =
           [CacheGet (ck dr), AuthorizedCert (key dr) (ck dr)] \<and>
         (authorizedCert e (key dr) (ck dr) = Inr (der, lf) \<and>
          tlscert e \<lparr>certState.key = key dr, cert = der, leaf = lf\<rparr> = Inr tc' \<and>
          putErr e = None \<longrightarrow>
            (\<exists>d. fst (do e (dr, w)) = Inr d) \<and>
            state (snd (snd (do e (dr, w)))) (ck dr) =
              Some \<lparr>certState.key = key dr, cert = der, leaf = lf\<rparr>)"
proof -
  let ?w2 = "w\<lparr>ticks := Suc (ticks w), drawn := Suc (drawn w),
               trace := trace w @ [CacheGet (ck dr)]\<rparr>"
  have "do_cached e (dr, w) = (None, ?w2)"
    using do_cached_not_signer [OF assms(1,4)] do_cached_world [of e dr w] assms(1)
    by (cases "do_cached e (dr, w)") simp
  then have d: "do e (dr, w) = do_issue e (dr, ?w2)"
    by (rule do_fall_through)
  have "\<exists>evs. trace (snd (snd (do_issue e (dr, ?w2)))) =
           trace w @ [CacheGet (ck dr), AuthorizedCert (key dr) (ck dr)] @ evs"
    by (simp add: do_issue_def cachePut_def emit_def Let_def updateState_eq split_beta next_world
        split: sum.splits option.splits prod.splits)
  then obtain evs where "trace (snd (snd (do_issue e (dr, ?w2)))) =
           trace w @ [CacheGet (ck dr), AuthorizedCert (key dr) (ck dr)] @ evs" ..
  then have "take 2 (events w (snd (snd (do_issue e (dr, ?w2))))) =
           [CacheGet (ck dr), AuthorizedCert (key dr) (ck dr)]"
    by (simp add: events_def)
  moreover have "(\<exists>d. fst (do_issue e (dr, ?w2)) = Inr d) \<and>
            state (snd (snd (do_issue e (dr, ?w2)))) (ck dr) =
              Some \<lparr>certState.key = key dr, cert = der, leaf = lf\<rparr>"
    if "authorizedCert e (key dr) (ck dr) = Inr (der, lf)"
      and "tlscert e \<lparr>certState.key = key dr, cert = der, leaf = lf\<rparr> = Inr tc'"
      and "putErr e = None"
    by (simp add: do_issue_ok [OF that])
  ultimately show ?thesis using d by simp
qed

text \<open>
  The theorem at work: the cached certificate is fresh, its key is not a signer, and the
  certificate authority issues a new certificate for the key of the record.
\<close>

theorem do_not_signer_falls_through_witness:
  "fst (do (exampleEnv 0 1000) (exampleRenewal, peerWorld (NotSigner 3))) = Inr 5183999999999000 \<and>
   state (snd (snd (do (exampleEnv 0 1000) (exampleRenewal, peerWorld (NotSigner 3))))) ''example.org''
     = Some \<lparr>certState.key = Signer 1, cert = [[1]], leaf = exampleLeaf (90 * day)\<rparr> \<and>
   take 2 (events (peerWorld (NotSigner 3))
      (snd (snd (do (exampleEnv 0 1000) (exampleRenewal, peerWorld (NotSigner 3)))))) =
     [CacheGet ''example.org'', AuthorizedCert (Signer 1) ''example.org'']"
proof -
  let ?e = "exampleEnv 0 1000" and ?w = "peerWorld (NotSigner 3)"
  let ?tc = "peerCert (NotSigner 3) (90 * day)"
  have 1: "fst (cacheGet ?e (ck exampleRenewal) ?w) = Inr ?tc"
    by (simp add: cacheGet_val example_defs)
  have 2: "5183999999999000 = fst (next ?e (NotAfter (Leaf ?tc)) (snd (cacheGet ?e (ck exampleRenewal) ?w)))"
    by (simp add: next_val now_def int63n_def Sub_def minDuration_def maxDuration_def
        renewJitter_def example_defs)
  have 3: "sint (renewBefore ?e) + sint renewJitter < sint (5183999999999000 :: 64 word)"
    by (simp add: renewJitter_def example_defs)
  have 4: "PrivateKey ?tc = NotSigner 3"
    by (simp add: example_defs)
  have 5: "authorizedCert ?e (key exampleRenewal) (ck exampleRenewal) = Inr ([[1]], exampleLeaf (90 * day))"
    by (simp add: example_defs)
  have 6: "tlscert ?e \<lparr>certState.key = key exampleRenewal, cert = [[1]], leaf = exampleLeaf (90 * day)\<rparr>
      = Inr \<lparr>Certificate = [[1]], PrivateKey = IsSigner (Signer 1), Leaf = exampleLeaf (90 * day)\<rparr>"
    by (simp add: example_defs)
  have 7: "putErr ?e = None" by (simp add: example_defs)
  note t = do_not_signer_falls_through [OF 1 2 3 4, of "[[1]]" "exampleLeaf (90 * day)"
      "\<lparr>Certificate = [[1]], PrivateKey = IsSigner (Signer 1), Leaf = exampleLeaf (90 * day)\<rparr>"]
  let ?w2 = "?w\<lparr>ticks := Suc (ticks ?w), drawn := Suc (drawn ?w),
                 trace := trace ?w @ [CacheGet (ck exampleRenewal)]\<rparr>"
  have d: "do ?e (exampleRenewal, ?w) = do_issue ?e (exampleRenewal, ?w2)"
    using t by blast
  have "fst (do_issue ?e (exampleRenewal, ?w2)) = Inr 5183999999999000"
    by (subst do_issue_ok [OF 5 6 7])
      (simp add: next_val now_def int63n_def Sub_def minDuration_def
        maxDuration_def renewJitter_def example_defs)
  then have 8: "fst (do ?e (exampleRenewal, ?w)) = Inr 5183999999999000"
    by (simp only: d)
  have 9: "state (snd (snd (do ?e (exampleRenewal, ?w)))) (ck exampleRenewal) =
      Some \<lparr>certState.key = key exampleRenewal, cert = [[1]], leaf = exampleLeaf (90 * day)\<rparr>"
    using t 5 6 7 by blast
  have 10: "take 2 (events ?w (snd (snd (do ?e (exampleRenewal, ?w))))) =
      [CacheGet (ck exampleRenewal), AuthorizedCert (key exampleRenewal) (ck exampleRenewal)]"
    using t by blast
  show ?thesis using 8 9 10 by (simp add: exampleRenewal_def)
qed

subsection \<open>Requesting a new certificate\<close>

text \<open>
  C3. Whenever \<open>do\<close> returns an error, the record (its key included) and the shared
  map are as before the call, and so is the cache unless a \<^verbatim>\<open>cachePut\<close> call was
  made. And once the cached certificate is not adopted, each failing step makes
  \<open>do\<close> return that step's error: a failed \<^verbatim>\<open>authorizedCert\<close>, a failed
  \<^verbatim>\<open>tlscert\<close> (both leave the cache as it was) and a failed \<^verbatim>\<open>cachePut\<close>.
\<close>

theorem do_failure_commits_nothing:
  "(fst (do e (dr, w)) = Inl err \<longrightarrow>
      fst (snd (do e (dr, w))) = dr \<and>
      state (snd (snd (do e (dr, w)))) = state w \<and>
      ((\<forall>k c. CachePut k c \<notin> set (events w (snd (snd (do e (dr, w)))))) \<longrightarrow>
         cache (snd (snd (do e (dr, w)))) = cache w)) \<and>
   (fst (do_cached e (dr, w)) = None \<longrightarrow>
      (authorizedCert e (key dr) (ck dr) = Inl err \<longrightarrow>
         fst (do e (dr, w)) = Inl err \<and> cache (snd (snd (do e (dr, w)))) = cache w) \<and>
      (authorizedCert e (key dr) (ck dr) = Inr (der, lf) \<and>
       tlscert e \<lparr>certState.key = key dr, cert = der, leaf = lf\<rparr> = Inl err \<longrightarrow>
         fst (do e (dr, w)) = Inl err \<and> cache (snd (snd (do e (dr, w)))) = cache w) \<and>
      (authorizedCert e (key dr) (ck dr) = Inr (der, lf) \<and>
       tlscert e \<lparr>certState.key = key dr, cert = der, leaf = lf\<rparr> = Inr tc \<and>
       putErr e = Some (err, left) \<longrightarrow>
         fst (do e (dr, w)) = Inl err))"
proof -
  obtain r w2 where c: "do_cached e (dr, w) = (r, w2)"
    by (cases "do_cached e (dr, w)")
  have w2: "state w2 = state w" "cache w2 = cache w" "trace w2 = trace w @ [CacheGet (ck dr)]"
    using c do_cached_frame [of e dr w] do_cached_trace [of e dr w] by simp_all
  have first: "fst (snd (do e (dr, w))) = dr \<and>
      state (snd (snd (do e (dr, w)))) = state w \<and>
      ((\<forall>k c. CachePut k c \<notin> set (events w (snd (snd (do e (dr, w)))))) \<longrightarrow>
         cache (snd (snd (do e (dr, w)))) = cache w)"
    if f: "fst (do e (dr, w)) = Inl err"
  proof (cases r)
    case None
    have d: "do e (dr, w) = do_issue e (dr, w2)"
      using c None by (simp add: do_fall_through)
    have "fst (do_issue e (dr, w2)) = Inl err" using f d by simp
    from do_issue_error [OF this] show ?thesis
      by (simp add: d w2 do_issue_events [OF w2(3)])
  next
    case (Some a)
    obtain nxt st where "a = (nxt, st)" by (cases a)
    with c Some have "do_cached e (dr, w) = (Some (nxt, st), w2)" by simp
    from do_adopt [OF this] f show ?thesis by simp
  qed
  have second: "(authorizedCert e (key dr) (ck dr) = Inl err \<longrightarrow>
         fst (do e (dr, w)) = Inl err \<and> cache (snd (snd (do e (dr, w)))) = cache w) \<and>
      (authorizedCert e (key dr) (ck dr) = Inr (der, lf) \<and>
       tlscert e \<lparr>certState.key = key dr, cert = der, leaf = lf\<rparr> = Inl err \<longrightarrow>
         fst (do e (dr, w)) = Inl err \<and> cache (snd (snd (do e (dr, w)))) = cache w) \<and>
      (authorizedCert e (key dr) (ck dr) = Inr (der, lf) \<and>
       tlscert e \<lparr>certState.key = key dr, cert = der, leaf = lf\<rparr> = Inr tc \<and>
       putErr e = Some (err, left) \<longrightarrow>
         fst (do e (dr, w)) = Inl err)"
    if n: "fst (do_cached e (dr, w)) = None"
  proof -
    have d: "do e (dr, w) = do_issue e (dr, w2)"
      using c n by (simp add: do_fall_through)
    show ?thesis
      by (auto simp: d w2 do_issue_fail_issue do_issue_fail_tlscert do_issue_fail_cachePut)
  qed
  from first second show ?thesis by blast
qed

text \<open>
  The theorem at work: the cache is empty and the certificate authority is unreachable.
\<close>

theorem do_failure_commits_nothing_witness:
  "fst (do issuerDown (exampleRenewal, exampleWorld)) = Inl (Err ''acme: unreachable'') \<and>
   fst (snd (do issuerDown (exampleRenewal, exampleWorld))) = exampleRenewal \<and>
   state (snd (snd (do issuerDown (exampleRenewal, exampleWorld)))) = state exampleWorld \<and>
   cache (snd (snd (do issuerDown (exampleRenewal, exampleWorld)))) = cache exampleWorld"
proof -
  have 1: "fst (do_cached issuerDown (exampleRenewal, exampleWorld)) = None"
    by (simp add: do_cached_val cacheGet_val example_defs)
  have 2: "authorizedCert issuerDown (key exampleRenewal) (ck exampleRenewal) = Inl (Err ''acme: unreachable'')"
    by (simp add: example_defs)
  show ?thesis
    using do_failure_commits_nothing [of issuerDown exampleRenewal exampleWorld "Err ''acme: unreachable''"] 1 2
    by blast
qed

text \<open>
  C4. The cached certificate is not adopted and the certificate authority answers with a
  chain and a leaf from which \<^verbatim>\<open>tlscert\<close> derives \<open>tc\<close>. When the cache write
  succeeds, the events are, in this order, the cache read, the request, the cache write
  and then the locked update of the map; the shared map holds the new state for this
  domain, the cache holds the certificate derived from that state, the key of the record
  is the key of that state, and \<open>do\<close> returns the delay that \<open>next\<close> computes from
  the expiry of the new leaf. When the cache write fails, the trace ends with it: the map
  and the record are not updated.
\<close>

theorem do_issue_commits_after_cachePut:
  assumes "fst (do_cached e (dr, w)) = None"
      and "authorizedCert e (key dr) (ck dr) = Inr (der, lf)"
      and "st = \<lparr>certState.key = key dr, cert = der, leaf = lf\<rparr>"
      and "tlscert e st = Inr tc"
  shows "(putErr e = None \<longrightarrow>
            fst (do e (dr, w)) = Inr (fst (next e (NotAfter lf) (snd (do_cached e (dr, w))))) \<and>
            state (snd (snd (do e (dr, w)))) = (state w)(ck dr \<mapsto> st) \<and>
            cache (snd (snd (do e (dr, w)))) = (cache w)(ck dr \<mapsto> tc) \<and>
            fst (snd (do e (dr, w))) = dr\<lparr>key := certState.key st\<rparr> \<and>
            trace (snd (snd (do e (dr, w)))) =
              trace w @ [CacheGet (ck dr), AuthorizedCert (key dr) (ck dr), CachePut (ck dr) tc,
                         Lock StateMu, Unlock StateMu]) \<and>
         (putErr e = Some (err, left) \<longrightarrow>
            fst (do e (dr, w)) = Inl err \<and>
            state (snd (snd (do e (dr, w)))) = state w \<and>
            fst (snd (do e (dr, w))) = dr \<and>
            trace (snd (snd (do e (dr, w)))) =
              trace w @ [CacheGet (ck dr), AuthorizedCert (key dr) (ck dr), CachePut (ck dr) tc])"
proof -
  obtain w2 where c: "do_cached e (dr, w) = (None, w2)"
    using assms(1) by (cases "do_cached e (dr, w)") simp
  have w2: "state w2 = state w" "cache w2 = cache w" "trace w2 = trace w @ [CacheGet (ck dr)]"
    using c do_cached_frame [of e dr w] do_cached_trace [of e dr w] by simp_all
  have d: "do e (dr, w) = do_issue e (dr, w2)"
    using c by (rule do_fall_through)
  note tc = assms(4) [unfolded assms(3)]
  have ok: "putErr e = None \<Longrightarrow>
            fst (do e (dr, w)) = Inr (fst (next e (NotAfter lf) (snd (do_cached e (dr, w))))) \<and>
            state (snd (snd (do e (dr, w)))) = (state w)(ck dr \<mapsto> st) \<and>
            cache (snd (snd (do e (dr, w)))) = (cache w)(ck dr \<mapsto> tc) \<and>
            fst (snd (do e (dr, w))) = dr\<lparr>key := certState.key st\<rparr> \<and>
            trace (snd (snd (do e (dr, w)))) =
              trace w @ [CacheGet (ck dr), AuthorizedCert (key dr) (ck dr), CachePut (ck dr) tc,
                         Lock StateMu, Unlock StateMu]"
    by (simp add: d do_issue_ok [OF assms(2) tc] w2 c assms(3))
  have bad: "putErr e = Some (err, left) \<Longrightarrow>
            fst (do e (dr, w)) = Inl err \<and>
            state (snd (snd (do e (dr, w)))) = state w \<and>
            fst (snd (do e (dr, w))) = dr \<and>
            trace (snd (snd (do e (dr, w)))) =
              trace w @ [CacheGet (ck dr), AuthorizedCert (key dr) (ck dr), CachePut (ck dr) tc]"
    by (simp add: d do_issue_fail_cachePut [OF assms(2) tc] w2)
  from ok bad show ?thesis by blast
qed

text \<open>
  The theorem at work: an empty cache, a certificate issued for 90 days.
\<close>

theorem do_issue_commits_after_cachePut_witness:
  "fst (do (exampleEnv 0 1000) (exampleRenewal, exampleWorld)) = Inr 5183999999999000 \<and>
   state (snd (snd (do (exampleEnv 0 1000) (exampleRenewal, exampleWorld)))) ''example.org'' =
     Some \<lparr>certState.key = Signer 1, cert = [[1]], leaf = exampleLeaf (90 * day)\<rparr> \<and>
   cache (snd (snd (do (exampleEnv 0 1000) (exampleRenewal, exampleWorld)))) ''example.org'' =
     Some \<lparr>Certificate = [[1]], PrivateKey = IsSigner (Signer 1), Leaf = exampleLeaf (90 * day)\<rparr> \<and>
   trace (snd (snd (do (exampleEnv 0 1000) (exampleRenewal, exampleWorld)))) =
     [CacheGet ''example.org'', AuthorizedCert (Signer 1) ''example.org'',
      CachePut ''example.org''
        \<lparr>Certificate = [[1]], PrivateKey = IsSigner (Signer 1), Leaf = exampleLeaf (90 * day)\<rparr>,
      Lock StateMu, Unlock StateMu]"
proof -
  let ?e = "exampleEnv 0 1000"
  let ?st = "\<lparr>certState.key = key exampleRenewal, cert = [[1]], leaf = exampleLeaf (90 * day)\<rparr>"
  let ?tc = "\<lparr>Certificate = [[1]], PrivateKey = IsSigner (Signer 1), Leaf = exampleLeaf (90 * day)\<rparr>"
  have 1: "fst (do_cached ?e (exampleRenewal, exampleWorld)) = None"
    by (simp add: do_cached_val cacheGet_val example_defs)
  have 2: "authorizedCert ?e (key exampleRenewal) (ck exampleRenewal) = Inr ([[1]], exampleLeaf (90 * day))"
    by (simp add: example_defs)
  have 3: "?st = ?st" by simp
  have 4: "tlscert ?e ?st = Inr ?tc"
    by (simp add: example_defs)
  have 5: "putErr ?e = None" by (simp add: example_defs)
  have 6: "fst (next ?e (NotAfter (exampleLeaf (90 * day))) (snd (do_cached ?e (exampleRenewal, exampleWorld))))
      = 5183999999999000"
    by (simp add: next_val now_def int63n_def Sub_def minDuration_def
        maxDuration_def renewJitter_def example_defs)
  show ?thesis
    using do_issue_commits_after_cachePut [OF 1 2 3 4] 5 6
    by (simp add: exampleRenewal_def exampleWorld_def)
qed

subsection \<open>What do and the timer methods leave alone\<close>

lemma do_issue_frame:
  "armed (snd (snd (do_issue e (dr, w)))) = armed w"
  "fresh (snd (snd (do_issue e (dr, w)))) = fresh w"
  "pending (snd (snd (do_issue e (dr, w)))) = pending w"
  "timer (fst (snd (do_issue e (dr, w)))) = timer dr"
  "ck (fst (snd (do_issue e (dr, w)))) = ck dr"
  by (simp_all add: do_issue_def cachePut_def emit_def Let_def updateState_eq split_beta next_world
        split: sum.splits option.splits prod.splits)

lemma do_frame:
  "armed (snd (snd (do e (dr, w)))) = armed w"
  "fresh (snd (snd (do e (dr, w)))) = fresh w"
  "pending (snd (snd (do e (dr, w)))) = pending w"
  "timer (fst (snd (do e (dr, w)))) = timer dr"
  "ck (fst (snd (do e (dr, w)))) = ck dr"
proof -
  obtain r w2 where c: "do_cached e (dr, w) = (r, w2)"
    by (cases "do_cached e (dr, w)")
  have w2: "armed w2 = armed w" "fresh w2 = fresh w" "pending w2 = pending w"
    using c do_cached_frame [of e dr w] by simp_all
  show "armed (snd (snd (do e (dr, w)))) = armed w"
    "fresh (snd (snd (do e (dr, w)))) = fresh w"
    "pending (snd (snd (do e (dr, w)))) = pending w"
    "timer (fst (snd (do e (dr, w)))) = timer dr"
    "ck (fst (snd (do e (dr, w)))) = ck dr"
    using c w2 by (cases r; simp add: do_def updateState_eq do_issue_frame split: prod.splits)+
qed

lemma do_issue_events_shape:
  "\<exists>tc. events w (snd (snd (do_issue e (dr, w)))) \<in>
     {[AuthorizedCert (key dr) (ck dr)],
      [AuthorizedCert (key dr) (ck dr), CachePut (ck dr) tc],
      [AuthorizedCert (key dr) (ck dr), CachePut (ck dr) tc, Lock StateMu, Unlock StateMu]}"
  by (simp add: do_issue_def cachePut_def emit_def Let_def updateState_eq split_beta next_world
        events_def split: sum.splits option.splits prod.splits)

lemma do_trace:
  "trace (snd (snd (do e (dr, w)))) = trace w @ events w (snd (snd (do e (dr, w))))"
proof -
  obtain r w2 where c: "do_cached e (dr, w) = (r, w2)"
    by (cases "do_cached e (dr, w)")
  have w2: "trace w2 = trace w @ [CacheGet (ck dr)]"
    using c do_cached_trace [of e dr w] by simp
  show ?thesis
  proof (cases r)
    case None
    obtain evs where "trace (snd (snd (do_issue e (dr, w2)))) = trace w2 @ evs"
      using do_issue_trace_grows by blast
    then show ?thesis using c None w2 by (simp add: do_def events_def)
  next
    case (Some a)
    then show ?thesis using c w2 by (cases a) (simp add: do_def updateState_eq events_def)
  qed
qed

lemma do_events_shape:
  "\<exists>tc. events w (snd (snd (do e (dr, w)))) \<in>
     {[CacheGet (ck dr), Lock StateMu, Unlock StateMu],
      [CacheGet (ck dr), AuthorizedCert (key dr) (ck dr)],
      [CacheGet (ck dr), AuthorizedCert (key dr) (ck dr), CachePut (ck dr) tc],
      [CacheGet (ck dr), AuthorizedCert (key dr) (ck dr), CachePut (ck dr) tc,
       Lock StateMu, Unlock StateMu]}"
proof -
  obtain r w2 where c: "do_cached e (dr, w) = (r, w2)"
    by (cases "do_cached e (dr, w)")
  have w2: "trace w2 = trace w @ [CacheGet (ck dr)]"
    using c do_cached_trace [of e dr w] by simp
  show ?thesis
  proof (cases r)
    case None
    have d: "do e (dr, w) = do_issue e (dr, w2)"
      using c None by (simp add: do_fall_through)
    obtain tc where "events w2 (snd (snd (do_issue e (dr, w2)))) \<in>
     {[AuthorizedCert (key dr) (ck dr)],
      [AuthorizedCert (key dr) (ck dr), CachePut (ck dr) tc],
      [AuthorizedCert (key dr) (ck dr), CachePut (ck dr) tc, Lock StateMu, Unlock StateMu]}"
      using do_issue_events_shape by blast
    then show ?thesis
      unfolding d do_issue_events [OF w2] by auto
  next
    case (Some a)
    obtain nxt st where "a = (nxt, st)" by (cases a)
    with c Some have "do_cached e (dr, w) = (Some (nxt, st), w2)" by simp
    from do_adopt [OF this] show ?thesis by (simp add: w2 events_def)
  qed
qed

lemma do_issue_unreachable:
  "fst (do_cached e (dr, w)) = None \<Longrightarrow> authorizedCert e (key dr) (ck dr) = Inl err \<Longrightarrow>
   fst (do e (dr, w)) = Inl err"
  by (cases "do_cached e (dr, w)") (simp add: do_fall_through do_issue_fail_issue)

lemma next_ignores_trace: "fst (next e x (w\<lparr>trace := t\<rparr>)) = fst (next e x w)"
  by (rule next_counters) simp_all

lemma start_set:
  "timer dr \<noteq> None \<Longrightarrow>
   start e x (dr, w) = (dr, w\<lparr>trace := trace w @ [Lock TimerMu, Unlock TimerMu]\<rparr>)"
  by (simp add: start_def emit_def Let_def)

lemma start_unset:
  "timer dr = None \<Longrightarrow>
   start e x (dr, w) =
     (dr\<lparr>timer := Some (fresh w)\<rparr>,
      w\<lparr>armed := armed w @ [(fresh w, fst (next e x w))], fresh := Suc (fresh w),
        ticks := Suc (ticks w), drawn := Suc (drawn w),
        trace := trace w @ [Lock TimerMu, TimerArm (fresh w) (fst (next e x w)), Unlock TimerMu]\<rparr>)"
  by (simp add: start_def emit_def Let_def AfterFunc_def split_beta next_world next_ignores_trace)

lemma stop_eq:
  "stop (dr, w) =
     (case timer dr of
        None \<Rightarrow> (dr, w\<lparr>trace := trace w @ [Lock TimerMu, Unlock TimerMu]\<rparr>)
      | Some h \<Rightarrow>
          (dr\<lparr>timer := None\<rparr>,
           w\<lparr>armed := disarm h (armed w),
             trace := trace w @ [Lock TimerMu, TimerStop h, Unlock TimerMu]\<rparr>))"
  by (simp add: stop_def Stop_def emit_def Let_def split: option.splits)

lemma backoff_eq:
  "backoff e w =
     (renewJitter div 2 + fst (int63n e (renewJitter div 2) w), w\<lparr>drawn := Suc (drawn w)\<rparr>)"
  by (simp add: backoff_def int63n_def Let_def)

lemma renew_idle:
  "timer dr = None \<Longrightarrow>
   renew e (dr, w) = (dr, w\<lparr>trace := trace w @ [Lock TimerMu, Unlock TimerMu]\<rparr>)"
  by (simp add: renew_def emit_def Let_def)

lemma renew_armed:
  assumes "timer dr \<noteq> None"
  shows "timer (fst (renew e (dr, w))) = Some (fresh w)"
    and "armed (snd (renew e (dr, w))) =
           armed w @ [(fresh w, chosen e (do e (dr, emit (Lock TimerMu) w)))]"
    and "events w (snd (renew e (dr, w))) =
           Lock TimerMu # events (emit (Lock TimerMu) w) (snd (snd (do e (dr, emit (Lock TimerMu) w))))
           @ [TimerArm (fresh w) (chosen e (do e (dr, emit (Lock TimerMu) w))),
              TestDidRenewLoop (chosen e (do e (dr, emit (Lock TimerMu) w)))
                (case fst (do e (dr, emit (Lock TimerMu) w)) of Inr d \<Rightarrow> None | Inl err \<Rightarrow> Some err),
              Unlock TimerMu]"
proof -
  let ?w1 = "emit (Lock TimerMu) w"
  obtain r dr2 w2 where d: "do e (dr, ?w1) = (r, dr2, w2)"
    by (cases "do e (dr, ?w1)")
  have fr: "armed w2 = armed w" "fresh w2 = fresh w"
    using do_frame(1,2) [of e dr ?w1] d by (simp_all add: emit_def)
  define evs where "evs = events ?w1 w2"
  have tr: "trace w2 = trace w @ Lock TimerMu # evs"
    using do_trace [of e dr ?w1] d by (simp add: emit_def evs_def)
  show "timer (fst (renew e (dr, w))) = Some (fresh w)"
    using assms d fr
    by (cases r) (simp_all add: renew_def Let_def AfterFunc_def emit_def backoff_eq)
  show "armed (snd (renew e (dr, w))) =
           armed w @ [(fresh w, chosen e (do e (dr, emit (Lock TimerMu) w)))]"
    using assms d fr
    by (cases r) (simp_all add: renew_def Let_def AfterFunc_def emit_def backoff_eq chosen_def)
  have "trace (snd (renew e (dr, w))) =
          trace w @ Lock TimerMu # evs
           @ [TimerArm (fresh w) (chosen e (r, dr2, w2)),
              TestDidRenewLoop (chosen e (r, dr2, w2))
                (case r of Inr d \<Rightarrow> None | Inl err \<Rightarrow> Some err),
              Unlock TimerMu]"
    using assms d fr tr
    by (cases r) (simp_all add: renew_def Let_def AfterFunc_def emit_def backoff_eq chosen_def)
  then have "events w (snd (renew e (dr, w))) =
          Lock TimerMu # evs
           @ [TimerArm (fresh w) (chosen e (r, dr2, w2)),
              TestDidRenewLoop (chosen e (r, dr2, w2))
                (case r of Inr d \<Rightarrow> None | Inl err \<Rightarrow> Some err),
              Unlock TimerMu]"
    by (simp add: events_def)
  then show "events w (snd (renew e (dr, w))) =
           Lock TimerMu # events (emit (Lock TimerMu) w) (snd (snd (do e (dr, emit (Lock TimerMu) w))))
           @ [TimerArm (fresh w) (chosen e (do e (dr, emit (Lock TimerMu) w))),
              TestDidRenewLoop (chosen e (do e (dr, emit (Lock TimerMu) w)))
                (case fst (do e (dr, emit (Lock TimerMu) w)) of Inr d \<Rightarrow> None | Inl err \<Rightarrow> Some err),
              Unlock TimerMu]"
    unfolding d evs_def by simp
qed

lemma start_trace:
  "trace (snd (start e x (dr, w))) = trace w @ events w (snd (start e x (dr, w)))"
  by (cases "timer dr = None") (simp_all add: start_set start_unset events_def)

lemma stop_trace:
  "trace (snd (stop (dr, w))) = trace w @ events w (snd (stop (dr, w)))"
  by (simp add: stop_eq events_def split: option.splits)

lemma renew_trace:
  "trace (snd (renew e (dr, w))) = trace w @ events w (snd (renew e (dr, w)))"
proof (cases "timer dr = None")
  case True
  then show ?thesis by (simp add: renew_idle events_def)
next
  case False
  obtain r dr2 w2 where d: "do e (dr, emit (Lock TimerMu) w) = (r, dr2, w2)"
    by (cases "do e (dr, emit (Lock TimerMu) w)")
  define evs where "evs = events (emit (Lock TimerMu) w) w2"
  have "trace w2 = trace w @ Lock TimerMu # evs"
    using do_trace [of e dr "emit (Lock TimerMu) w"] d by (simp add: emit_def evs_def)
  then show ?thesis
    using False d
    by (cases r) (simp_all add: renew_def Let_def AfterFunc_def emit_def backoff_eq events_def)
qed

lemmas run_defs = step_def start_def stop_def renew_def do_def do_cached_def do_issue_def
  cacheGet_def cachePut_def updateState_def next_def now_def int63n_def backoff_def
  AfterFunc_def Stop_def disarm_def emit_def Sub_def minDuration_def maxDuration_def
  renewJitter_def Let_def

subsection \<open>The backoff after a failure\<close>

lemma sint_of_nat_64: "k < 2 ^ 63 \<Longrightarrow> sint (word_of_nat k :: 64 word) = int k"
proof -
  assume "k < 2 ^ 63"
  then have "int k < 2 ^ 63" by (simp add: of_nat_less_iff [of k "2 ^ 63", where ?'a = int, simplified])
  then have "sint (word_of_int (int k) :: 64 word) = int k"
    by (intro sint_of_int_64) simp_all
  then show ?thesis by simp
qed

lemma half_jitter: "renewJitter div 2 = (1800000000000 :: 64 word)"
  by (simp add: renewJitter_def)

lemma int63n_half_range:
  "0 \<le> sint (fst (int63n e (renewJitter div 2) w)) \<and>
   sint (fst (int63n e (renewJitter div 2) w)) < 1800000000000"
proof -
  let ?k = "rands e (drawn w) mod 1800000000000"
  have k: "?k < 1800000000000" by simp
  then have "?k < 2 ^ 63" by simp
  then have "sint (word_of_nat ?k :: 64 word) = int ?k" by (rule sint_of_nat_64)
  moreover have "fst (int63n e (renewJitter div 2) w) = word_of_nat ?k"
    by (simp add: int63n_def half_jitter)
  ultimately show ?thesis using k by simp
qed

lemma backoff_range:
  "sint (fst (backoff e w)) = 1800000000000 + sint (fst (int63n e (renewJitter div 2) w)) \<and>
   1800000000000 \<le> sint (fst (backoff e w)) \<and> sint (fst (backoff e w)) < 3600000000000"
proof -
  let ?u = "fst (int63n e (renewJitter div 2) w)"
  have u: "0 \<le> sint ?u" "sint ?u < 1800000000000"
    using int63n_half_range [of e w] by simp_all
  have "sint (1800000000000 + ?u) = 1800000000000 + sint ?u"
    using u by (simp add: sint_word_ariths signed_take_bit_int_eq_self)
  then show ?thesis using u by (simp add: backoff_eq half_jitter)
qed

text \<open>
  C5. The timer handle is set and \<open>do\<close> returns an error. Then the timer that
  \<open>renew\<close> arms has the delay \<open>renewJitter / 2 + u\<close>, where \<open>u\<close> is the draw of
  \<^verbatim>\<open>int63n(renewJitter / 2)\<close>, a value of \<open>[0, renewJitter / 2)\<close>; the sum does not
  wrap around, so the delay lies in \<open>[renewJitter / 2, renewJitter)\<close>; and the hook is
  called with this delay and the error.
\<close>

theorem renew_backoff_range:
  assumes "timer dr \<noteq> None"
      and "fst (do e (dr, emit (Lock TimerMu) w)) = Inl err"
  shows "\<exists>u. u = fst (int63n e (renewJitter div 2) (snd (snd (do e (dr, emit (Lock TimerMu) w))))) \<and>
           0 \<le> sint u \<and> sint u < sint renewJitter div 2 \<and>
           armed (snd (renew e (dr, w))) = armed w @ [(fresh w, renewJitter div 2 + u)] \<and>
           sint (renewJitter div 2 + u) = sint renewJitter div 2 + sint u \<and>
           sint renewJitter div 2 \<le> sint (renewJitter div 2 + u) \<and>
           sint (renewJitter div 2 + u) < sint renewJitter \<and>
           TestDidRenewLoop (renewJitter div 2 + u) (Some err) \<in> set (events w (snd (renew e (dr, w))))"
proof -
  let ?res = "do e (dr, emit (Lock TimerMu) w)"
  let ?u = "fst (int63n e (renewJitter div 2) (snd (snd ?res)))"
  have c: "chosen e ?res = renewJitter div 2 + ?u"
    using assms(2) by (simp add: chosen_def backoff_eq)
  have r: "0 \<le> sint ?u" "sint ?u < 1800000000000"
    using int63n_half_range [of e "snd (snd ?res)"] by simp_all
  have b: "sint (renewJitter div 2 + ?u) = 1800000000000 + sint ?u"
    using backoff_range [of e "snd (snd ?res)"] by (simp add: backoff_eq)
  have a: "armed (snd (renew e (dr, w))) = armed w @ [(fresh w, renewJitter div 2 + ?u)]"
    using renew_armed(2) [OF assms(1), where e = e and w = w] c by simp
  have h: "TestDidRenewLoop (renewJitter div 2 + ?u) (Some err) \<in> set (events w (snd (renew e (dr, w))))"
    using renew_armed(3) [OF assms(1), where e = e and w = w] c assms(2) by simp
  show ?thesis
    using r b a h by (simp add: sint_renewJitter)
qed

text \<open>
  The theorem at work: the certificate authority is unreachable and the draw is 1000 ns;
  the next timer is armed at 30 minutes and 1000 ns.
\<close>

theorem renew_backoff_range_witness:
  "fst (do issuerDown (firedRenewal, emit (Lock TimerMu) firedWorld)) = Inl (Err ''acme: unreachable'') \<and>
   armed (snd (renew issuerDown (firedRenewal, firedWorld))) = [(1, 1800000001000)]"
proof -
  let ?res = "do issuerDown (firedRenewal, emit (Lock TimerMu) firedWorld)"
  have 1: "timer firedRenewal \<noteq> None" by (simp add: example_defs)
  have 2: "fst ?res = Inl (Err ''acme: unreachable'')"
    by (rule do_issue_unreachable)
      (simp_all add: do_cached_val cacheGet_val emit_def example_defs)
  have "drawn (snd (snd ?res)) = 0"
    by (simp add: do_def do_cached_def do_issue_def cacheGet_def emit_def Let_def example_defs)
  then have 3: "fst (int63n issuerDown (renewJitter div 2) (snd (snd ?res))) = 1000"
    by (simp add: int63n_def renewJitter_def example_defs)
  show ?thesis
    using renew_backoff_range [OF 1 2] 2 3
    by (simp add: renewJitter_def example_defs)
qed

subsection \<open>The loop of renew\<close>

text \<open>
  C7. When the timer handle is cleared, \<open>renew\<close> takes and releases \<^verbatim>\<open>timerMu\<close>
  and does nothing else: no call, no timer, no hook. When the handle is set, whatever
  \<open>do\<close> returns, \<open>renew\<close> arms one new timer with the chosen delay (the delay
  \<open>do\<close> returned, or the backoff after an error), stores its handle in the record, and
  then calls \<^verbatim>\<open>testDidRenewLoop\<close> with that delay and the error or none, as its last
  event before it releases the lock. So the handle stays set from one callback to the
  next; \<open>start\<close> keeps a handle that is set, and \<open>stop\<close> is what clears it.
\<close>

theorem renew_rearms:
  "(timer dr = None \<longrightarrow>
      renew e (dr, w) = (dr, w\<lparr>trace := trace w @ [Lock TimerMu, Unlock TimerMu]\<rparr>)) \<and>
   (timer dr \<noteq> None \<longrightarrow>
      timer (fst (renew e (dr, w))) = Some (fresh w) \<and>
      armed (snd (renew e (dr, w))) =
        armed w @ [(fresh w, chosen e (do e (dr, emit (Lock TimerMu) w)))] \<and>
      events w (snd (renew e (dr, w))) =
        Lock TimerMu # events (emit (Lock TimerMu) w) (snd (snd (do e (dr, emit (Lock TimerMu) w))))
        @ [TimerArm (fresh w) (chosen e (do e (dr, emit (Lock TimerMu) w))),
           TestDidRenewLoop (chosen e (do e (dr, emit (Lock TimerMu) w)))
             (case fst (do e (dr, emit (Lock TimerMu) w)) of Inr d \<Rightarrow> None | Inl err \<Rightarrow> Some err),
           Unlock TimerMu] \<and>
      (\<forall>d. fst (do e (dr, emit (Lock TimerMu) w)) = Inr d \<longrightarrow>
           chosen e (do e (dr, emit (Lock TimerMu) w)) = d) \<and>
      (\<forall>err. fst (do e (dr, emit (Lock TimerMu) w)) = Inl err \<longrightarrow>
           chosen e (do e (dr, emit (Lock TimerMu) w)) =
             fst (backoff e (snd (snd (do e (dr, emit (Lock TimerMu) w))))))) \<and>
   (timer dr \<noteq> None \<longrightarrow> timer (fst (start e x (dr, w))) = timer dr) \<and>
   timer (fst (stop (dr, w))) = None"
proof (intro conjI impI allI)
  assume "timer dr = None"
  then show "renew e (dr, w) = (dr, w\<lparr>trace := trace w @ [Lock TimerMu, Unlock TimerMu]\<rparr>)"
    by (rule renew_idle)
next
  assume "timer dr \<noteq> None"
  then show "timer (fst (renew e (dr, w))) = Some (fresh w)"
    by (rule renew_armed(1))
next
  assume "timer dr \<noteq> None"
  then show "armed (snd (renew e (dr, w))) =
        armed w @ [(fresh w, chosen e (do e (dr, emit (Lock TimerMu) w)))]"
    by (rule renew_armed(2))
next
  assume "timer dr \<noteq> None"
  then show "events w (snd (renew e (dr, w))) =
        Lock TimerMu # events (emit (Lock TimerMu) w) (snd (snd (do e (dr, emit (Lock TimerMu) w))))
        @ [TimerArm (fresh w) (chosen e (do e (dr, emit (Lock TimerMu) w))),
           TestDidRenewLoop (chosen e (do e (dr, emit (Lock TimerMu) w)))
             (case fst (do e (dr, emit (Lock TimerMu) w)) of Inr d \<Rightarrow> None | Inl err \<Rightarrow> Some err),
           Unlock TimerMu]"
    by (rule renew_armed(3))
next
  fix d
  assume "fst (do e (dr, emit (Lock TimerMu) w)) = Inr d"
  then show "chosen e (do e (dr, emit (Lock TimerMu) w)) = d"
    by (simp add: chosen_def)
next
  fix err
  assume "fst (do e (dr, emit (Lock TimerMu) w)) = Inl err"
  then show "chosen e (do e (dr, emit (Lock TimerMu) w)) =
             fst (backoff e (snd (snd (do e (dr, emit (Lock TimerMu) w)))))"
    by (simp add: chosen_def)
next
  assume "timer dr \<noteq> None"
  then show "timer (fst (start e x (dr, w))) = timer dr"
    by (simp add: start_set)
next
  show "timer (fst (stop (dr, w))) = None"
    by (simp add: stop_eq split: option.splits)
qed

text \<open>
  The theorem at work: a callback on a stopped record, a callback whose renewal fails and
  a callback whose renewal succeeds.
\<close>

theorem renew_rearms_witness:
  "renew (exampleEnv 0 1000) (exampleRenewal, exampleWorld) =
     (exampleRenewal, exampleWorld\<lparr>trace := [Lock TimerMu, Unlock TimerMu]\<rparr>) \<and>
   timer (fst (renew issuerDown (firedRenewal, firedWorld))) = Some 1 \<and>
   armed (snd (renew issuerDown (firedRenewal, firedWorld))) = [(1, 1800000001000)] \<and>
   events firedWorld (snd (renew issuerDown (firedRenewal, firedWorld))) =
     [Lock TimerMu, CacheGet ''example.org'', AuthorizedCert (Signer 1) ''example.org'',
      TimerArm 1 1800000001000,
      TestDidRenewLoop 1800000001000 (Some (Err ''acme: unreachable'')),
      Unlock TimerMu] \<and>
   timer (fst (renew (exampleEnv 0 1000) (firedRenewal, firedWorld))) = Some 1 \<and>
   armed (snd (renew (exampleEnv 0 1000) (firedRenewal, firedWorld))) = [(1, 5183999999999000)]"
proof -
  have 1: "timer exampleRenewal = None" by (simp add: example_defs)
  have 2: "timer firedRenewal \<noteq> None" by (simp add: example_defs)
  let ?bad = "do issuerDown (firedRenewal, emit (Lock TimerMu) firedWorld)"
  let ?ok = "do (exampleEnv 0 1000) (firedRenewal, emit (Lock TimerMu) firedWorld)"
  have 3: "fst ?bad = Inl (Err ''acme: unreachable'')"
    by (simp add: run_defs example_defs)
  have 4: "events (emit (Lock TimerMu) firedWorld) (snd (snd ?bad)) =
      [CacheGet ''example.org'', AuthorizedCert (Signer 1) ''example.org'']"
    by (simp add: run_defs events_def example_defs)
  have 5: "chosen issuerDown ?bad = 1800000001000"
    by (simp add: chosen_def run_defs example_defs)
  have 6: "chosen (exampleEnv 0 1000) ?ok = 5183999999999000"
    by (simp add: chosen_def run_defs example_defs)
  have 7: "fresh firedWorld = 1" "armed firedWorld = []" "trace exampleWorld = []"
    by (simp_all add: example_defs)
  note a = renew_rearms [of exampleRenewal "exampleEnv 0 1000" exampleWorld]
  note b = renew_rearms [of firedRenewal issuerDown firedWorld]
  note c = renew_rearms [of firedRenewal "exampleEnv 0 1000" firedWorld]
  have A: "renew (exampleEnv 0 1000) (exampleRenewal, exampleWorld) =
     (exampleRenewal, exampleWorld\<lparr>trace := [Lock TimerMu, Unlock TimerMu]\<rparr>)"
    using a 1 7 by simp
  have B: "timer (fst (renew issuerDown (firedRenewal, firedWorld))) = Some 1 \<and>
   armed (snd (renew issuerDown (firedRenewal, firedWorld))) = [(1, 1800000001000)] \<and>
   events firedWorld (snd (renew issuerDown (firedRenewal, firedWorld))) =
     [Lock TimerMu, CacheGet ''example.org'', AuthorizedCert (Signer 1) ''example.org'',
      TimerArm 1 1800000001000,
      TestDidRenewLoop 1800000001000 (Some (Err ''acme: unreachable'')),
      Unlock TimerMu]"
    using b 2 3 4 5 7 by simp
  have C: "timer (fst (renew (exampleEnv 0 1000) (firedRenewal, firedWorld))) = Some 1 \<and>
   armed (snd (renew (exampleEnv 0 1000) (firedRenewal, firedWorld))) = [(1, 5183999999999000)]"
    using c 2 6 7 by simp
  from A B C show ?thesis by blast
qed

subsection \<open>Locks held at the calls\<close>

text \<open>
  C9 (as amended). \<^verbatim>\<open>stateMu\<close> is never held at a call that reaches the cache or the
  network, in \<open>do\<close>, \<open>renew\<close>, \<open>start\<close> or \<open>stop\<close>. \<open>start\<close>, \<open>stop\<close> and
  \<open>renew\<close> each take \<^verbatim>\<open>timerMu\<close> as their first event and release it as their
  last, and nowhere in between. \<open>start\<close> and \<open>stop\<close> make no call that reaches the
  cache or the network. Every call that \<open>renew\<close> makes is made with \<^verbatim>\<open>timerMu\<close>
  held: when the timer handle is set, all the events of \<open>do\<close>, the cache read first,
  lie between the taking and the release of \<^verbatim>\<open>timerMu\<close>; when it is cleared,
  \<open>renew\<close> makes no call.
\<close>

theorem locks_and_calls:
  "\<not> held_across StateMu False (events w (snd (renew e (dr, w)))) \<and>
   \<not> held_across StateMu False (events w (snd (snd (do e (dr, w))))) \<and>
   \<not> held_across StateMu False (events w (snd (start e x (dr, w)))) \<and>
   \<not> held_across StateMu False (events w (snd (stop (dr, w)))) \<and>
   \<not> held_across TimerMu False (events w (snd (start e x (dr, w)))) \<and>
   \<not> held_across TimerMu False (events w (snd (stop (dr, w)))) \<and>
   held_throughout TimerMu (events w (snd (start e x (dr, w)))) \<and>
   held_throughout TimerMu (events w (snd (stop (dr, w)))) \<and>
   held_throughout TimerMu (events w (snd (renew e (dr, w)))) \<and>
   calls_under TimerMu False (events w (snd (renew e (dr, w)))) \<and>
   (timer dr = None \<longrightarrow> \<not> held_across TimerMu False (events w (snd (renew e (dr, w))))) \<and>
   (timer dr \<noteq> None \<longrightarrow>
      held_across TimerMu False (events w (snd (renew e (dr, w)))) \<and>
      (\<exists>tl. events w (snd (renew e (dr, w))) =
         Lock TimerMu # events (emit (Lock TimerMu) w) (snd (snd (do e (dr, emit (Lock TimerMu) w))))
         @ tl @ [Unlock TimerMu]) \<and>
      hd (events (emit (Lock TimerMu) w) (snd (snd (do e (dr, emit (Lock TimerMu) w))))) =
        CacheGet (ck dr))"
proof -
  have st: "events w (snd (start e x (dr, w))) \<in>
      {[Lock TimerMu, Unlock TimerMu],
       [Lock TimerMu, TimerArm (fresh w) (fst (next e x w)), Unlock TimerMu]}"
    by (cases "timer dr = None") (simp_all add: start_set start_unset events_def)
  have sp: "\<exists>h. events w (snd (stop (dr, w))) \<in>
      {[Lock TimerMu, Unlock TimerMu], [Lock TimerMu, TimerStop h, Unlock TimerMu]}"
    by (simp add: stop_eq events_def split: option.splits)
  obtain tc where d: "events w (snd (snd (do e (dr, w)))) \<in>
     {[CacheGet (ck dr), Lock StateMu, Unlock StateMu],
      [CacheGet (ck dr), AuthorizedCert (key dr) (ck dr)],
      [CacheGet (ck dr), AuthorizedCert (key dr) (ck dr), CachePut (ck dr) tc],
      [CacheGet (ck dr), AuthorizedCert (key dr) (ck dr), CachePut (ck dr) tc,
       Lock StateMu, Unlock StateMu]}"
    using do_events_shape by blast
  let ?w1 = "emit (Lock TimerMu) w"
  obtain tc' where d1: "events ?w1 (snd (snd (do e (dr, ?w1)))) \<in>
     {[CacheGet (ck dr), Lock StateMu, Unlock StateMu],
      [CacheGet (ck dr), AuthorizedCert (key dr) (ck dr)],
      [CacheGet (ck dr), AuthorizedCert (key dr) (ck dr), CachePut (ck dr) tc'],
      [CacheGet (ck dr), AuthorizedCert (key dr) (ck dr), CachePut (ck dr) tc',
       Lock StateMu, Unlock StateMu]}"
    using do_events_shape by blast
  have 1: "\<not> held_across StateMu False (events w (snd (renew e (dr, w))))"
  proof (cases "timer dr = None")
    case True
    then show ?thesis by (simp add: renew_idle events_def)
  next
    case False
    show ?thesis
      unfolding renew_armed(3) [OF False] using d1 by auto
  qed
  have 2: "\<not> held_across StateMu False (events w (snd (snd (do e (dr, w)))))"
    using d by auto
  have 3: "\<not> held_across StateMu False (events w (snd (start e x (dr, w))))"
    "\<not> held_across TimerMu False (events w (snd (start e x (dr, w))))"
    "held_throughout TimerMu (events w (snd (start e x (dr, w))))"
    using st by (auto simp: held_throughout_def)
  have 4: "\<not> held_across StateMu False (events w (snd (stop (dr, w))))"
    "\<not> held_across TimerMu False (events w (snd (stop (dr, w))))"
    "held_throughout TimerMu (events w (snd (stop (dr, w))))"
    using sp by (auto simp: held_throughout_def)
  have 5: "\<not> held_across TimerMu False (events w (snd (renew e (dr, w))))" if "timer dr = None"
    using that by (simp add: renew_idle events_def)
  have 6: "held_across TimerMu False (events w (snd (renew e (dr, w))))" if "timer dr \<noteq> None"
    unfolding renew_armed(3) [OF that] using d1 by auto
  have 7: "held_throughout TimerMu (events w (snd (renew e (dr, w))))"
  proof (cases "timer dr = None")
    case True
    then show ?thesis by (simp add: renew_idle events_def held_throughout_def)
  next
    case False
    show ?thesis
      unfolding renew_armed(3) [OF False] using d1 by (auto simp: held_throughout_def)
  qed
  have 8: "calls_under TimerMu False (events w (snd (renew e (dr, w))))"
  proof (cases "timer dr = None")
    case True
    then show ?thesis by (simp add: renew_idle events_def)
  next
    case False
    show ?thesis
      unfolding renew_armed(3) [OF False] using d1 by auto
  qed
  have 9: "\<exists>tl. events w (snd (renew e (dr, w))) =
         Lock TimerMu # events ?w1 (snd (snd (do e (dr, ?w1)))) @ tl @ [Unlock TimerMu]"
    if "timer dr \<noteq> None"
    unfolding renew_armed(3) [OF that]
    by (rule exI [where x = "[TimerArm (fresh w) (chosen e (do e (dr, ?w1))),
          TestDidRenewLoop (chosen e (do e (dr, ?w1)))
            (case fst (do e (dr, ?w1)) of Inr d \<Rightarrow> None | Inl err \<Rightarrow> Some err)]"]) simp
  have 10: "hd (events ?w1 (snd (snd (do e (dr, ?w1))))) = CacheGet (ck dr)"
    using d1 by auto
  from 1 2 3 4 5 6 7 8 9 10 show ?thesis by blast
qed

text \<open>
  The theorem at work: a callback that renews, a callback on a stopped record and a
  callback whose renewal fails.
\<close>

theorem locks_and_calls_witness:
  "\<not> held_across StateMu False
       (events firedWorld (snd (renew (exampleEnv 0 1000) (firedRenewal, firedWorld)))) \<and>
   calls_under TimerMu False
       (events firedWorld (snd (renew (exampleEnv 0 1000) (firedRenewal, firedWorld)))) \<and>
   held_throughout TimerMu
       (events firedWorld (snd (renew (exampleEnv 0 1000) (firedRenewal, firedWorld)))) \<and>
   \<not> held_across TimerMu False
       (events exampleWorld (snd (renew (exampleEnv 0 1000) (exampleRenewal, exampleWorld)))) \<and>
   held_across TimerMu False
       (events firedWorld (snd (renew issuerDown (firedRenewal, firedWorld)))) \<and>
   hd (events (emit (Lock TimerMu) firedWorld)
         (snd (snd (do issuerDown (firedRenewal, emit (Lock TimerMu) firedWorld))))) =
     CacheGet ''example.org''"
proof -
  have 1: "timer exampleRenewal = None" by (simp add: example_defs)
  have 2: "timer firedRenewal \<noteq> None" by (simp add: example_defs)
  have 3: "ck firedRenewal = ''example.org''" by (simp add: example_defs)
  note a = locks_and_calls [of firedWorld "exampleEnv 0 1000" firedRenewal]
  note b = locks_and_calls [of exampleWorld "exampleEnv 0 1000" exampleRenewal]
  note c = locks_and_calls [of firedWorld issuerDown firedRenewal]
  have "hd (events (emit (Lock TimerMu) firedWorld)
         (snd (snd (do issuerDown (firedRenewal, emit (Lock TimerMu) firedWorld))))) =
     CacheGet (ck firedRenewal)"
    using c 2 by blast
  then show ?thesis
    using a b c 1 2 unfolding 3 by blast
qed

text \<open>
  C9 as stated fails: the trace of a callback that renews. \<^verbatim>\<open>timerMu\<close> is taken
  first and released last, and the cache read, the request to the certificate authority
  and the cache write all lie between.
\<close>

theorem renew_holds_timerMu_counterexample:
  "events firedWorld (snd (renew (exampleEnv 0 1000) (firedRenewal, firedWorld))) =
     [Lock TimerMu,
      CacheGet ''example.org'',
      AuthorizedCert (Signer 1) ''example.org'',
      CachePut ''example.org''
        \<lparr>Certificate = [[1]], PrivateKey = IsSigner (Signer 1), Leaf = exampleLeaf (90 * day)\<rparr>,
      Lock StateMu, Unlock StateMu,
      TimerArm 1 5183999999999000,
      TestDidRenewLoop 5183999999999000 None,
      Unlock TimerMu] \<and>
   held_across TimerMu False
     (events firedWorld (snd (renew (exampleEnv 0 1000) (firedRenewal, firedWorld))))"
  by (simp add: run_defs events_def example_defs)

subsection \<open>One timer for one record\<close>

text \<open>
  \<open>start\<close> on a record whose handle is set changes neither the handle nor the armed
  timers, so any number of calls of \<open>start\<close> in a row arm one timer.
\<close>

lemma start_again:
  "timer dr \<noteq> None \<Longrightarrow>
   timer (fst (run e (map CallStart xs) (dr, w))) = timer dr \<and>
   armed (snd (run e (map CallStart xs) (dr, w))) = armed w"
proof (induction xs arbitrary: w)
  case Nil
  then show ?case by simp
next
  case (Cons x xs)
  have "step e (CallStart x) (dr, w) = (dr, w\<lparr>trace := trace w @ [Lock TimerMu, Unlock TimerMu]\<rparr>)"
    using Cons.prems by (simp add: step_def start_set)
  then show ?case using Cons by simp
qed

lemma start_repeated:
  "timer dr = None \<Longrightarrow>
   armed (snd (run e (map CallStart (x # xs)) (dr, w))) = armed w @ [(fresh w, fst (next e x w))] \<and>
   timer (fst (run e (map CallStart (x # xs)) (dr, w))) = Some (fresh w)"
proof -
  assume n: "timer dr = None"
  let ?dr = "dr\<lparr>timer := Some (fresh w)\<rparr>"
  have t: "timer ?dr \<noteq> None" by simp
  show ?thesis
    using start_again [OF t, where e = e and xs = xs] n
    by (simp add: step_def start_unset)
qed

text \<open>
  As long as \<open>stop\<close> is not called, the record and the runtime stay in agreement
  whatever the order of calls of \<open>start\<close>, fired timers and callbacks: at most one
  timer is armed.
\<close>

lemma renew_pending: "pending (snd (renew e (dr, w))) = pending w"
proof (cases "timer dr = None")
  case True
  then show ?thesis by (simp add: renew_idle)
next
  case False
  obtain r dr2 w2 where d: "do e (dr, emit (Lock TimerMu) w) = (r, dr2, w2)"
    by (cases "do e (dr, emit (Lock TimerMu) w)")
  have "pending w2 = pending w"
    using do_frame(3) [of e dr "emit (Lock TimerMu) w"] d by (simp add: emit_def)
  then show ?thesis
    using False d
    by (cases r) (simp_all add: renew_def Let_def AfterFunc_def emit_def backoff_eq)
qed

lemma one_timer_step:
  assumes "one_timer s" and "a \<noteq> CallStop"
  shows "one_timer (step e a s)"
proof -
  obtain dr w where s: "s = (dr, w)" by (cases s)
  show ?thesis
  proof (cases a)
    case (CallStart x)
    show ?thesis
    proof (cases "timer dr = None")
      case True
      with assms(1) show ?thesis
        by (simp add: s CallStart step_def start_unset one_timer_def)
    next
      case False
      with assms(1) show ?thesis
        by (auto simp: s CallStart step_def start_set one_timer_def)
    qed
  next
    case CallStop
    with assms(2) show ?thesis by simp
  next
    case (Fires h)
    with assms(1) show ?thesis
      by (auto simp: s step_def one_timer_def disarm_def split: option.splits)
  next
    case Enters
    show ?thesis
    proof (cases "pending w = 0")
      case True
      with assms(1) show ?thesis by (simp add: s Enters step_def)
    next
      case False
      let ?w = "w\<lparr>pending := pending w - 1\<rparr>"
      from False assms(1) obtain h where h: "timer dr = Some h" "pending w = 1" "armed w = []"
        by (auto simp: s one_timer_def split: option.splits)
      then have t: "timer dr \<noteq> None" by simp
      have "timer (fst (renew e (dr, ?w))) = Some (fresh ?w)"
        "\<exists>d. armed (snd (renew e (dr, ?w))) = armed ?w @ [(fresh ?w, d)]"
        "pending (snd (renew e (dr, ?w))) = pending ?w"
        using renew_armed(1,2) [OF t, where e = e and w = ?w] renew_pending [of e dr ?w]
        by simp_all
      then show ?thesis
        using h False
        by (cases "renew e (dr, ?w)") (auto simp: s Enters step_def one_timer_def)
    qed
  qed
qed

lemma one_timer_run:
  "one_timer s \<Longrightarrow> CallStop \<notin> set as \<Longrightarrow> one_timer (run e as s)"
proof (induction as arbitrary: s)
  case Nil
  then show ?case by simp
next
  case (Cons a as)
  from Cons.prems have "a \<noteq> CallStop" "CallStop \<notin> set as" by auto
  moreover from Cons.prems(1) \<open>a \<noteq> CallStop\<close> have "one_timer (step e a s)"
    by (rule one_timer_step)
  ultimately show ?case using Cons.IH by simp
qed

lemma one_timer_armed: "one_timer (dr, w) \<Longrightarrow> length (armed w) \<le> 1"
  by (auto simp: one_timer_def split: option.splits dest: arg_cong [where f = length])

lemma at_most_one_timer_without_stop:
  assumes "timer dr = None" and "armed w = []" and "pending w = 0"
      and "CallStop \<notin> set as"
  shows "length (armed (snd (run e as (dr, w)))) \<le> 1"
proof -
  have "one_timer (dr, w)" using assms(1-3) by (simp add: one_timer_def)
  then have "one_timer (run e as (dr, w))" using assms(4) by (rule one_timer_run)
  then show ?thesis
    using one_timer_armed [of "fst (run e as (dr, w))" "snd (run e as (dr, w))"] by simp
qed

text \<open>
  C6. A run in which more than one timer is armed for one record. The owner starts the
  record; the timer 0 fires and the runtime starts the goroutine of \<open>renew\<close>; before
  that goroutine takes \<^verbatim>\<open>timerMu\<close>, the owner stops the record and starts it again,
  which arms the timer 1; the callback then finds the handle set, renews and arms the
  timer 2. The timers 1 and 2 are both armed, and the record holds the handle of 2 only.
\<close>

theorem stop_start_before_callback_arms_two:
  "armed (snd (run (exampleEnv 0 1000)
                 [CallStart (45 * day), Fires 0, CallStop, CallStart (45 * day), Enters]
                 (exampleRenewal, exampleWorld))) =
     [(1, 1295999999999000), (2, 5183999999999000)] \<and>
   timer (fst (run (exampleEnv 0 1000)
                 [CallStart (45 * day), Fires 0, CallStop, CallStart (45 * day), Enters]
                 (exampleRenewal, exampleWorld))) = Some 2"
  by (simp add: run_defs example_defs)

end
